theory Spec2Isabelle
  imports Complex_Main "HOL-Library.Word" "HOL-Library.AList"
begin

section \<open>Strings and the standard-library helpers the watcher calls\<close>

text \<open>
  Strings are byte strings. \<open>lower\<close> is Python's \<^verbatim>\<open>str.lower\<close> on ASCII
  (bytes outside \<open>A..Z\<close> are left alone), \<open>endswith\<close> is \<^verbatim>\<open>str.endswith\<close>,
  \<open>strip\<close> is \<^verbatim>\<open>str.strip()\<close> over the ASCII white space.
\<close>

definition lower_char :: "char \<Rightarrow> char" where
  "lower_char c =
     (if (65::nat) \<le> of_char c \<and> (of_char c :: nat) \<le> 90
      then char_of ((of_char c :: nat) + 32) else c)"

definition lower :: "string \<Rightarrow> string" where
  "lower s = map lower_char s"

definition endswith :: "string \<Rightarrow> string \<Rightarrow> bool" where
  "endswith s suf =
     (length suf \<le> length s \<and> drop (length s - length suf) s = suf)"

definition is_space :: "char \<Rightarrow> bool" where
  "is_space c =
     ((of_char c :: nat) \<in> {9, 10, 11, 12, 13, 28, 29, 30, 31, 32})"

definition strip :: "string \<Rightarrow> string" where
  "strip s = rev (dropWhile is_space (rev (dropWhile is_space s)))"

text \<open>
  \<^verbatim>\<open>str.rfind\<close> for a one-character needle: the last index, or \<open>-1\<close>.
\<close>

definition rfind :: "string \<Rightarrow> char \<Rightarrow> int" where
  "rfind p c =
     (if c \<in> set p
      then int (length p) - 1 - int (length (takeWhile (\<lambda>x. x \<noteq> c) (rev p)))
      else - 1)"

text \<open>
  \<^verbatim>\<open>os.path.splitext\<close> (\<^verbatim>\<open>genericpath._splitext\<close>): the extension starts at
  the last dot, provided this dot comes after the last separator and some character
  between the separator and the dot is not a dot. \<open>sep\<close> and \<open>altsep\<close> are the
  platform's separators (\<open>/\<close> and none on POSIX, backslash and \<open>/\<close> on Windows).
\<close>

definition splitext :: "char \<Rightarrow> char option \<Rightarrow> string \<Rightarrow> string \<times> string" where
  "splitext sep altsep p =
     (let sepIndex = (case altsep of None \<Rightarrow> rfind p sep
                      | Some a \<Rightarrow> max (rfind p sep) (rfind p a));
          dotIndex = rfind p (CHR ''.'')
      in if dotIndex > sepIndex \<and>
            list_ex (\<lambda>c. c \<noteq> CHR ''.'')
              (take (nat dotIndex - nat (sepIndex + 1)) (drop (nat (sepIndex + 1)) p))
         then (take (nat dotIndex) p, drop (nat dotIndex) p)
         else (p, []))"

datatype error = ValueError | KeyError | OSError

text \<open>
  \<^verbatim>\<open>int(s)\<close> on an ASCII decimal string: surrounding white space is dropped
  (tab, line feed, vertical tab, form feed, carriage return and space; unlike
  \<^verbatim>\<open>str.strip()\<close>, \<^verbatim>\<open>int\<close> does not drop the separators \<open>0x1C\<close> to
  \<open>0x1F\<close>), one sign is allowed, digits may be grouped by single underscores;
  anything else raises \<^verbatim>\<open>ValueError\<close>. Strings are bytes here, so the digits and
  spaces of Unicode beyond ASCII, which \<^verbatim>\<open>int\<close> also accepts, are not covered.
\<close>

definition is_int_space :: "char \<Rightarrow> bool" where
  "is_int_space c = ((of_char c :: nat) \<in> {9, 10, 11, 12, 13, 32})"

definition int_strip :: "string \<Rightarrow> string" where
  "int_strip s = rev (dropWhile is_int_space (rev (dropWhile is_int_space s)))"

definition is_digit :: "char \<Rightarrow> bool" where
  "is_digit c = ((48::nat) \<le> of_char c \<and> (of_char c :: nat) \<le> 57)"

definition digit_val :: "char \<Rightarrow> nat" where
  "digit_val c = of_char c - 48"

fun parse_digits :: "bool \<Rightarrow> nat \<Rightarrow> string \<Rightarrow> nat option" where
  "parse_digits prev acc [] = (if prev then Some acc else None)"
| "parse_digits prev acc (c # cs) =
     (if is_digit c then parse_digits True (10 * acc + digit_val c) cs
      else if c = CHR ''_'' \<and> prev \<and> cs \<noteq> [] \<and> is_digit (hd cs)
           then parse_digits False acc cs
      else None)"

definition py_int :: "string \<Rightarrow> error + int" where
  "py_int s =
     (case int_strip s of
        [] \<Rightarrow> Inl ValueError
      | c # cs \<Rightarrow>
          if c = CHR ''-'' then
            (case parse_digits False 0 cs of None \<Rightarrow> Inl ValueError
             | Some n \<Rightarrow> Inr (- int n))
          else if c = CHR ''+'' then
            (case parse_digits False 0 cs of None \<Rightarrow> Inl ValueError
             | Some n \<Rightarrow> Inr (int n))
          else
            (case parse_digits False 0 (c # cs) of None \<Rightarrow> Inl ValueError
             | Some n \<Rightarrow> Inr (int n)))"

text \<open>\<^verbatim>\<open>s.split(":")[0]\<close>: everything before the first colon.\<close>

definition before_colon :: "string \<Rightarrow> string" where
  "before_colon s = takeWhile (\<lambda>c. c \<noteq> CHR '':'') s"

section \<open>Configuration (utils/config.py)\<close>

record monitoring_config =
  include_file_extensions :: "string list"
  exclude_file_extensions :: "string list"
  min_file_size_bytes :: int
  max_file_size_bytes :: "int option"

record time_based_alert_config =
  enabled :: bool
  restricted_hours :: "string \<rightharpoonup> string"
  weekend_alerts :: bool

record alert_config =
  alert_threshold_mb :: int
  suspicious_extensions :: "string list"
  large_transfer_alert :: bool
  large_transfer_threshold_mb :: int
  time_based_alerts :: time_based_alert_config

record config =
  monitoring :: monitoring_config
  alerts :: alert_config

section \<open>The operating system as the handler sees it\<close>

text \<open>
  One snapshot of what the operating system and the standard library answer while a
  handler method runs: \<^verbatim>\<open>os.path.isfile\<close>, \<^verbatim>\<open>os.path.exists\<close>,
  \<^verbatim>\<open>os.path.getsize\<close> (\<open>None\<close> when it raises \<^verbatim>\<open>OSError\<close>),
  \<^verbatim>\<open>os.path.relpath\<close> (\<open>None\<close> when it raises \<^verbatim>\<open>ValueError\<close>),
  \<^verbatim>\<open>fnmatch.fnmatch\<close>, the path separators, \<^verbatim>\<open>time.time()\<close>, and the hour
  and weekday of \<^verbatim>\<open>datetime.now()\<close>. The fields are independent: nothing forces a
  file that \<open>isfile\<close> reports to have a readable size, as on a real file system where
  the file can vanish between two calls.
\<close>

record os_env =
  isfile :: "string \<Rightarrow> bool"
  path_exists :: "string \<Rightarrow> bool"
  getsize :: "string \<Rightarrow> nat option"
  relpath :: "string \<Rightarrow> string \<Rightarrow> string option"
  fnmatch :: "string \<Rightarrow> string \<Rightarrow> bool"
  sep :: char
  altsep :: "char option"
  clock :: rat
  now_hour :: int
  now_weekday :: int

definition file_ext :: "os_env \<Rightarrow> string \<Rightarrow> string" where
  "file_ext env path = lower (snd (splitext (sep env) (altsep env) path))"

section \<open>Policy evaluator (core/file\_watcher.py)\<close>

text \<open>
  The size test of \<^verbatim>\<open>_should_monitor_file\<close> (its \<^verbatim>\<open>try\<close> block): \<open>True\<close>
  when the block returns \<^verbatim>\<open>False\<close> from the method. A size that cannot be read
  lands in the bare \<^verbatim>\<open>except: pass\<close>. The upper bound applies only when
  \<^verbatim>\<open>max_file_size_bytes\<close> is truthy (neither \<^verbatim>\<open>None\<close> nor 0).
\<close>

definition size_rejected :: "monitoring_config \<Rightarrow> nat option \<Rightarrow> bool" where
  "size_rejected m sz =
     (case sz of
        None \<Rightarrow> False
      | Some size_bytes \<Rightarrow>
          if min_file_size_bytes m > 0 \<and> int size_bytes < min_file_size_bytes m then True
          else (case max_file_size_bytes m of
                  None \<Rightarrow> False
                | Some mx \<Rightarrow> mx \<noteq> 0 \<and> int size_bytes > mx))"

definition pattern_matches :: "os_env \<Rightarrow> string \<Rightarrow> string \<Rightarrow> bool" where
  "pattern_matches env ext pattern = (endswith ext pattern \<or> fnmatch env ext pattern)"

text \<open>Lines 68 to 94 of \<^verbatim>\<open>_should_monitor_file\<close>: the extension policy.\<close>

definition extension_policy :: "monitoring_config \<Rightarrow> os_env \<Rightarrow> string \<Rightarrow> bool" where
  "extension_policy m env path =
     (let ext = file_ext env path;
          include_patterns = include_file_extensions m;
          exclude_patterns = exclude_file_extensions m
      in if length include_patterns = 1 \<and> hd include_patterns = ''*''
         then ext \<notin> set exclude_patterns
         else if \<not> list_ex (pattern_matches env ext) include_patterns then False
         else if list_ex (pattern_matches env ext) exclude_patterns then False
         else True)"

definition should_monitor_file :: "config \<Rightarrow> os_env \<Rightarrow> string \<Rightarrow> bool" where
  "should_monitor_file cfg env path =
     (if \<not> isfile env path then False
      else if size_rejected (monitoring cfg) (getsize env path) then False
      else extension_policy (monitoring cfg) env path)"

text \<open>
  \<^verbatim>\<open>size / (1024 * 1024)\<close> is a true division; it is taken over the rationals.
\<close>

definition size_mb :: "nat \<Rightarrow> rat" where
  "size_mb n = of_nat n / (1024 * 1024)"

definition is_suspicious_file :: "config \<Rightarrow> os_env \<Rightarrow> string \<Rightarrow> bool" where
  "is_suspicious_file cfg env path =
     (let ext = file_ext env path
      in if ext \<in> set (suspicious_extensions (alerts cfg)) then
           (case getsize env path of
              None \<Rightarrow> True
            | Some n \<Rightarrow>
                if size_mb n > of_int (alert_threshold_mb (alerts cfg)) then True
                else False)
         else False)"

definition restricted_hour :: "time_based_alert_config \<Rightarrow> string \<Rightarrow> error + int" where
  "restricted_hour t key =
     (case restricted_hours t key of
        None \<Rightarrow> Inl KeyError
      | Some s \<Rightarrow> py_int (before_colon s))"

definition check_time_based_alerts :: "config \<Rightarrow> os_env \<Rightarrow> error + bool" where
  "check_time_based_alerts cfg env =
     (let t = time_based_alerts (alerts cfg) in
      if \<not> enabled t then Inr False
      else
        let current_hour = now_hour env;
            is_weekend = (now_weekday env \<ge> 5)
        in if is_weekend \<and> weekend_alerts t then Inr True
           else
             (case restricted_hour t ''start'' of
                Inl e \<Rightarrow> Inl e
              | Inr start_hour \<Rightarrow>
                  (case restricted_hour t ''end'' of
                     Inl e \<Rightarrow> Inl e
                   | Inr end_hour \<Rightarrow>
                       if start_hour > end_hour
                       then Inr (current_hour \<ge> start_hour \<or> current_hour < end_hour)
                       else Inr (current_hour \<ge> start_hour \<and> current_hour < end_hour))))"

section \<open>Event reconciler (core/file\_watcher.py, \<^verbatim>\<open>USBFileEventHandler\<close>)\<close>

record usb_device =
  device_id :: string
  name :: string
  mount_point :: string
  serial :: "string option"
  vendor :: "string option"
  model :: "string option"

record handler =
  config :: config
  device :: usb_device
  username :: string

text \<open>
  The line \<^verbatim>\<open>log_file_transfer\<close> appends to the transfer log (the formatter puts
  the time stamp in front), and the lines the handler sends to the application logger.
\<close>

record transfer_record =
  operation :: string
  device_name :: string
  file_path :: string
  file_size :: nat
  file_type :: string
  user :: string

datatype log_line =
    LargeTransferWarning string string
  | SuspiciousWarning string string nat
  | AfterHoursWarning string string nat
  | TransferLine transfer_record
  | ErrorLine

text \<open>
  \<^verbatim>\<open>_log_file_operation\<close>. Every exception inside the \<^verbatim>\<open>try\<close> ends the
  method with one error line, after the warnings already sent: \<^verbatim>\<open>relpath\<close> can
  raise, \<^verbatim>\<open>getsize\<close> can raise for a path \<^verbatim>\<open>exists\<close> reported, and so can
  parsing the restricted hours.
\<close>

definition log_file_operation ::
  "handler \<Rightarrow> os_env \<Rightarrow> string \<Rightarrow> string \<Rightarrow> bool \<Rightarrow> log_line list" where
  "log_file_operation h env op path final =
     (case relpath env path (mount_point (device h)) of
        None \<Rightarrow> [ErrorLine]
      | Some relative_path \<Rightarrow>
          (case (if path_exists env path then getsize env path else Some 0) of
             None \<Rightarrow> [ErrorLine]
           | Some fsize \<Rightarrow>
               let ftype = file_ext env path;
                   large =
                     (if large_transfer_alert (alerts (config h)) \<and>
                         size_mb fsize > of_int (large_transfer_threshold_mb (alerts (config h)))
                      then [LargeTransferWarning op relative_path] else []);
                   suspicious =
                     (if is_suspicious_file (config h) env path
                      then [SuspiciousWarning op relative_path fsize] else [])
               in (case check_time_based_alerts (config h) env of
                     Inl e \<Rightarrow> large @ suspicious @ [ErrorLine]
                   | Inr after_hours \<Rightarrow>
                       large @ suspicious @
                       (if after_hours then [AfterHoursWarning op relative_path fsize] else []) @
                       (if final
                        then [TransferLine \<lparr>operation = op, device_name = name (device h),
                                file_path = relative_path, file_size = fsize,
                                file_type = ftype, user = username h\<rparr>]
                        else []))))"

text \<open>
  \<^verbatim>\<open>_in_progress\<close>: a dict from path to (operation, start time), kept in
  insertion order. Assigning to a key replaces the value in place or appends.
\<close>

type_synonym in_progress = "(string \<times> string \<times> rat) list"

definition op_completion_time :: rat where
  "op_completion_time = 1"

definition record_operation :: "os_env \<Rightarrow> string \<Rightarrow> string \<Rightarrow> in_progress \<Rightarrow> in_progress" where
  "record_operation env op path tbl = AList.update path (op, clock env) tbl"

text \<open>
  The locked loop of \<^verbatim>\<open>_finalize_operations\<close> over a snapshot of the items:
  entries older than the completion time move to \<^verbatim>\<open>to_finalize\<close> and leave
  the dict.
\<close>

fun find_finalizable ::
  "rat \<Rightarrow> in_progress \<Rightarrow> in_progress \<Rightarrow> (string \<times> string) list
     \<Rightarrow> in_progress \<times> (string \<times> string) list" where
  "find_finalizable current_time [] tbl to_finalize = (tbl, to_finalize)"
| "find_finalizable current_time ((path, op, start_time) # items) tbl to_finalize =
     (if current_time - start_time > op_completion_time
      then find_finalizable current_time items (AList.delete path tbl)
             (to_finalize @ [(path, op)])
      else find_finalizable current_time items tbl to_finalize)"

text \<open>One pass of the loop body of \<^verbatim>\<open>_finalize_operations\<close>.\<close>

definition finalize_operations ::
  "handler \<Rightarrow> os_env \<Rightarrow> in_progress \<Rightarrow> in_progress \<times> log_line list" where
  "finalize_operations h env tbl =
     (let (tbl', to_finalize) = find_finalizable (clock env) tbl tbl []
      in (tbl',
          concat (map (\<lambda>(path, op).
                    if path_exists env path \<or> op = ''deleted''
                    then log_file_operation h env op path True else [])
                  to_finalize)))"

text \<open>
  A watchdog event. \<open>dest_path = None\<close> is an event object without the attribute
  (\<^verbatim>\<open>hasattr(event, 'dest_path')\<close> is false).
\<close>

record fs_event =
  is_directory :: bool
  src_path :: string
  dest_path :: "string option"

definition on_created ::
  "handler \<Rightarrow> os_env \<Rightarrow> fs_event \<Rightarrow> in_progress \<Rightarrow> in_progress \<times> log_line list" where
  "on_created h env event tbl =
     (if \<not> is_directory event \<and> should_monitor_file (config h) env (src_path event)
      then (record_operation env ''created'' (src_path event) tbl,
            log_file_operation h env ''created'' (src_path event) False)
      else (tbl, []))"

definition on_deleted ::
  "handler \<Rightarrow> os_env \<Rightarrow> fs_event \<Rightarrow> in_progress \<Rightarrow> in_progress \<times> log_line list" where
  "on_deleted h env event tbl =
     (if \<not> is_directory event
      then (record_operation env ''deleted'' (src_path event) tbl,
            log_file_operation h env ''deleted'' (src_path event) False)
      else (tbl, []))"

definition on_modified ::
  "handler \<Rightarrow> os_env \<Rightarrow> fs_event \<Rightarrow> in_progress \<Rightarrow> in_progress \<times> log_line list" where
  "on_modified h env event tbl =
     (if \<not> is_directory event \<and> should_monitor_file (config h) env (src_path event)
      then (record_operation env ''modified'' (src_path event) tbl,
            log_file_operation h env ''modified'' (src_path event) False)
      else (tbl, []))"

definition on_moved ::
  "handler \<Rightarrow> os_env \<Rightarrow> fs_event \<Rightarrow> in_progress \<Rightarrow> in_progress \<times> log_line list" where
  "on_moved h env event tbl =
     (if \<not> is_directory event then
        (case dest_path event of
           Some dest \<Rightarrow>
             if should_monitor_file (config h) env dest
             then (record_operation env ''moved'' dest tbl,
                   log_file_operation h env ''moved'' dest False)
             else if should_monitor_file (config h) env (src_path event)
             then (record_operation env ''moved'' (src_path event) tbl,
                   log_file_operation h env ''moved'' (src_path event) False)
             else (tbl, [])
         | None \<Rightarrow>
             if should_monitor_file (config h) env (src_path event)
             then (record_operation env ''moved'' (src_path event) tbl,
                   log_file_operation h env ''moved'' (src_path event) False)
             else (tbl, []))
      else (tbl, []))"

text \<open>
  The two actors take the lock in turn, so a run of the handler is a sequence of
  steps, each with the snapshot it sees: a dispatched event or one finalizer pass.
\<close>

datatype step =
    Created fs_event os_env
  | Deleted fs_event os_env
  | Modified fs_event os_env
  | Moved fs_event os_env
  | Sweep os_env

fun do_step :: "handler \<Rightarrow> step \<Rightarrow> in_progress \<Rightarrow> in_progress \<times> log_line list" where
  "do_step h (Created event env) tbl = on_created h env event tbl"
| "do_step h (Deleted event env) tbl = on_deleted h env event tbl"
| "do_step h (Modified event env) tbl = on_modified h env event tbl"
| "do_step h (Moved event env) tbl = on_moved h env event tbl"
| "do_step h (Sweep env) tbl = finalize_operations h env tbl"

fun run :: "handler \<Rightarrow> in_progress \<Rightarrow> step list \<Rightarrow> in_progress \<times> log_line list" where
  "run h tbl [] = (tbl, [])"
| "run h tbl (s # rest) =
     (let (tbl1, out1) = do_step h s tbl;
          (tbl2, out2) = run h tbl1 rest
      in (tbl2, out1 @ out2))"

fun transfer_records :: "log_line list \<Rightarrow> transfer_record list" where
  "transfer_records [] = []"
| "transfer_records (TransferLine r # ls) = r # transfer_records ls"
| "transfer_records (_ # ls) = transfer_records ls"

fun step_env :: "step \<Rightarrow> os_env" where
  "step_env (Created event env) = env"
| "step_env (Deleted event env) = env"
| "step_env (Modified event env) = env"
| "step_env (Moved event env) = env"
| "step_env (Sweep env) = env"

fun is_sweep :: "step \<Rightarrow> bool" where
  "is_sweep (Sweep env) = True"
| "is_sweep _ = False"

fun step_kind :: "step \<Rightarrow> string" where
  "step_kind (Created event env) = ''created''"
| "step_kind (Deleted event env) = ''deleted''"
| "step_kind (Modified event env) = ''modified''"
| "step_kind (Moved event env) = ''moved''"
| "step_kind (Sweep env) = ''sweep''"

fun step_event :: "step \<Rightarrow> fs_event option" where
  "step_event (Created event env) = Some event"
| "step_event (Deleted event env) = Some event"
| "step_event (Modified event env) = Some event"
| "step_event (Moved event env) = Some event"
| "step_event (Sweep env) = None"

section \<open>Device registry (core/usb\_monitor.py, \<^verbatim>\<open>USBMonitor._monitor_fallback\<close>)\<close>

text \<open>
  \<^verbatim>\<open>connected_devices\<close>: a dict from device id to device, in insertion order.
\<close>

type_synonym connected_devices = "(string \<times> usb_device) list"

text \<open>
  The first loop runs over a snapshot of the keys and pops every key that is not
  among the detected ids; \<^verbatim>\<open>pop\<close> returns the value stored under the key, which is
  the value the snapshot holds. The removed devices are listed in the order in which
  \<^verbatim>\<open>_trigger_device_removed\<close> is called.
\<close>

fun check_removed ::
  "string set \<Rightarrow> connected_devices \<Rightarrow> connected_devices \<Rightarrow> usb_device list
     \<Rightarrow> connected_devices \<times> usb_device list" where
  "check_removed current_device_ids [] devs removed = (devs, removed)"
| "check_removed current_device_ids ((did, removed_device) # items) devs removed =
     (if did \<notin> current_device_ids
      then check_removed current_device_ids items (AList.delete did devs)
             (removed @ [removed_device])
      else check_removed current_device_ids items devs removed)"

fun check_new ::
  "usb_device list \<Rightarrow> connected_devices \<Rightarrow> usb_device list
     \<Rightarrow> connected_devices \<times> usb_device list" where
  "check_new [] devs added = (devs, added)"
| "check_new (d # current_devices) devs added =
     (if device_id d \<notin> fst ` set devs
      then check_new current_devices (AList.update (device_id d) d devs) (added @ [d])
      else check_new current_devices devs added)"

text \<open>
  One pass of the polling loop. \<open>None\<close> is a detection that raised: the pass is
  skipped and the dict stays as it is. The result is the new dict, the devices
  reported removed and the devices reported added.
\<close>

definition monitor_fallback_step ::
  "connected_devices \<Rightarrow> usb_device list option
     \<Rightarrow> connected_devices \<times> usb_device list \<times> usb_device list" where
  "monitor_fallback_step devs detected =
     (case detected of
        None \<Rightarrow> (devs, [], [])
      | Some current_devices \<Rightarrow>
          let current_device_ids = set (map device_id current_devices);
              (devs1, removed) = check_removed current_device_ids devs devs [];
              (devs2, added) = check_new current_devices devs1 []
          in (devs2, removed, added))"

section \<open>Transfer log and its digest (utils/logger.py)\<close>

text \<open>
  The log file, its companion \<^verbatim>\<open>.hash\<close> file and the rotated backups; \<open>None\<close> is
  a file that does not exist.
\<close>

record log_files =
  log_file :: "string option"
  hash_file :: "string option"
  backups :: "string list"

text \<open>
  \<^verbatim>\<open>hashlib.sha256\<close> is a parameter \<open>sha\<close> of the model, a function from the
  bytes of the file to a 256-bit digest; \<^verbatim>\<open>hexdigest()\<close> writes the digest as 64
  lower-case hexadecimal digits, most significant first.
\<close>

definition hex_char :: "nat \<Rightarrow> char" where
  "hex_char n = ''0123456789abcdef'' ! n"

definition hexdigest :: "256 word \<Rightarrow> string" where
  "hexdigest w = map (\<lambda>i. hex_char (unat (drop_bit (4 * (63 - i)) w) mod 16)) [0..<64]"

definition compute_file_hash :: "(string \<Rightarrow> 256 word) \<Rightarrow> log_files \<Rightarrow> string option" where
  "compute_file_hash sha fs =
     (case log_file fs of None \<Rightarrow> None | Some content \<Rightarrow> Some (hexdigest (sha content)))"

definition save_hash :: "(string \<Rightarrow> 256 word) \<Rightarrow> log_files \<Rightarrow> log_files" where
  "save_hash sha fs =
     (case compute_file_hash sha fs of
        None \<Rightarrow> fs
      | Some current_hash \<Rightarrow>
          if current_hash \<noteq> [] then fs\<lparr>hash_file := Some current_hash\<rparr> else fs)"

text \<open>
  \<^verbatim>\<open>doRollover\<close>: the base class renames the log to the first backup when
  \<^verbatim>\<open>backupCount\<close> is positive (the oldest backup beyond the count is lost) and
  reopens the log in append mode, which creates it; then the digest is saved.
\<close>

definition doRollover :: "(string \<Rightarrow> 256 word) \<Rightarrow> nat \<Rightarrow> log_files \<Rightarrow> log_files" where
  "doRollover sha backupCount fs =
     save_hash sha
       (if backupCount > 0
        then fs\<lparr>backups := take backupCount
                    ((case log_file fs of None \<Rightarrow> [] | Some content \<Rightarrow> [content]) @ backups fs),
                log_file := Some []\<rparr>
        else fs\<lparr>log_file := Some (case log_file fs of None \<Rightarrow> [] | Some content \<Rightarrow> content)\<rparr>)"

text \<open>
  \<^verbatim>\<open>emit\<close>: the base class rolls over when \<^verbatim>\<open>shouldRollover\<close> says so (the flag
  \<open>rollover\<close>), appends the formatted line, and the digest is saved. A record is
  the pair of the flag and the formatted line.
\<close>

definition emit ::
  "(string \<Rightarrow> 256 word) \<Rightarrow> nat \<Rightarrow> log_files \<Rightarrow> bool \<times> string \<Rightarrow> log_files" where
  "emit sha backupCount fs rec =
     (let fs1 = (if fst rec then doRollover sha backupCount fs else fs);
          fs2 = fs1\<lparr>log_file :=
                   Some ((case log_file fs1 of None \<Rightarrow> [] | Some content \<Rightarrow> content) @ snd rec)\<rparr>
      in save_hash sha fs2)"

text \<open>
  \<^verbatim>\<open>verify_log_integrity\<close>. Opening a log file that does not exist raises.
\<close>

definition verify_log_integrity ::
  "(string \<Rightarrow> 256 word) \<Rightarrow> log_files \<Rightarrow> error + bool \<times> string" where
  "verify_log_integrity sha fs =
     (case hash_file fs of
        None \<Rightarrow> Inr (False, ''Hash file missing'')
      | Some h \<Rightarrow>
          let saved_hash = strip h in
          (case log_file fs of
             None \<Rightarrow> Inl OSError
           | Some content \<Rightarrow>
               let current_hash = hexdigest (sha content) in
               if saved_hash \<noteq> current_hash
               then Inr (False, ''Hash mismatch, log file may have been tampered with'')
               else Inr (True, ''Log file integrity verified'')))"

section \<open>Runs of the handler\<close>

text \<open>
  Vocabulary for runs: the time of a step, the raw events of a run (its steps other
  than finalizer passes), an event on a given path that is not a directory event, and
  a snapshot in which the final logging call for a path writes its record (the path
  exists and neither \<^verbatim>\<open>relpath\<close>, \<^verbatim>\<open>getsize\<close> nor the time check raises).
\<close>

definition step_clock :: "step \<Rightarrow> rat" where
  "step_clock s = clock (step_env s)"

definition events :: "step list \<Rightarrow> step list" where
  "events trace = filter (\<lambda>s. \<not> is_sweep s) trace"

definition file_event_on :: "string \<Rightarrow> step \<Rightarrow> bool" where
  "file_event_on path s =
     (case step_event s of
        None \<Rightarrow> False
      | Some event \<Rightarrow> src_path event = path \<and> \<not> is_directory event)"

definition loggable :: "handler \<Rightarrow> string \<Rightarrow> os_env \<Rightarrow> bool" where
  "loggable h path env =
     (path_exists env path \<and>
      relpath env path (mount_point (device h)) \<noteq> None \<and>
      getsize env path \<noteq> None \<and>
      (case check_time_based_alerts (config h) env of Inl e \<Rightarrow> False | Inr b \<Rightarrow> True))"

section \<open>Example data\<close>

text \<open>
  A configuration with the wildcard include list, \<open>.tmp\<close> excluded, a lower size
  bound of 1000 bytes and no upper bound; the alert settings are the defaults of
  \<^verbatim>\<open>utils/config.py\<close>.
\<close>

definition example_config :: config where
  "example_config =
     \<lparr>monitoring = \<lparr>include_file_extensions = [''*''],
        exclude_file_extensions = [''.tmp''], min_file_size_bytes = 1000,
        max_file_size_bytes = None\<rparr>,
      alerts = \<lparr>alert_threshold_mb = 100,
        suspicious_extensions =
          [''.zip'', ''.rar'', ''.7z'', ''.tar'', ''.gz'', ''.db'', ''.sql'',
           ''.xlsx'', ''.docx'', ''.pdf''],
        large_transfer_alert = True, large_transfer_threshold_mb = 500,
        time_based_alerts = \<lparr>enabled = True,
           restricted_hours = [''start'' \<mapsto> ''18:00'', ''end'' \<mapsto> ''07:00''],
           weekend_alerts = True\<rparr>\<rparr>\<rparr>"

definition office_hours_config :: config where
  "office_hours_config =
     example_config\<lparr>alerts := (alerts example_config)\<lparr>time_based_alerts :=
       \<lparr>enabled = True,
        restricted_hours = [''start'' \<mapsto> ''09:00'', ''end'' \<mapsto> ''17:30''],
        weekend_alerts = False\<rparr>\<rparr>\<rparr>"

text \<open>
  A POSIX snapshot on a Wednesday at 20h: every path is an existing regular file of
  1000 bytes, except \<open>small.txt\<close> (500 bytes), \<open>big.zip\<close> (200 MB) and \<open>gone.zip\<close>,
  whose size cannot be read.
\<close>

definition example_env :: os_env where
  "example_env =
     \<lparr>isfile = (\<lambda>p. True), path_exists = (\<lambda>p. True),
      getsize = (\<lambda>p. if p = ''/media/usb/small.txt'' then Some 500
                      else if p = ''/media/usb/gone.zip'' then None
                      else if p = ''/media/usb/big.zip'' then Some 209715200
                      else Some 1000),
      relpath = (\<lambda>p start. Some (drop (Suc (length start)) p)),
      fnmatch = (\<lambda>n pat. False),
      sep = CHR ''/'', altsep = None,
      clock = 0, now_hour = 20, now_weekday = 2\<rparr>"

text \<open>
  The device \<open>D1\<close> mounted at \<open>/media/usb\<close> and its handler; the same
  snapshot after every file has gone, at the same time and two seconds later; a delete
  event for \<open>a.tmp\<close> and a move event from \<open>a.txt\<close> to \<open>a.tmp\<close>.
\<close>

definition example_device :: usb_device where
  "example_device =
     \<lparr>device_id = ''USB-0001'', name = ''D1'', mount_point = ''/media/usb'',
      serial = Some ''0001'', vendor = None, model = None\<rparr>"

definition example_handler :: handler where
  "example_handler = \<lparr>config = example_config, device = example_device, username = ''alice''\<rparr>"

definition deleted_env :: os_env where
  "deleted_env = example_env\<lparr>isfile := (\<lambda>p. False), path_exists := (\<lambda>p. False),
     getsize := (\<lambda>p. None)\<rparr>"

definition later_env :: os_env where
  "later_env = deleted_env\<lparr>clock := 2\<rparr>"

definition delete_tmp_event :: fs_event where
  "delete_tmp_event = \<lparr>is_directory = False, src_path = ''/media/usb/a.tmp'', dest_path = None\<rparr>"

definition rename_to_tmp_event :: fs_event where
  "rename_to_tmp_event =
     \<lparr>is_directory = False, src_path = ''/media/usb/a.txt'',
      dest_path = Some ''/media/usb/a.tmp''\<rparr>"

text \<open>A move event from \<open>a.tmp\<close> to \<open>a.txt\<close>.\<close>

definition rename_to_txt_event :: fs_event where
  "rename_to_txt_event =
     \<lparr>is_directory = False, src_path = ''/media/usb/a.tmp'',
      dest_path = Some ''/media/usb/a.txt''\<rparr>"

text \<open>Three devices, and the second one detected again under another mount point.\<close>

definition device_a :: usb_device where
  "device_a = \<lparr>device_id = ''USB-A'', name = ''Stick A'', mount_point = ''/media/a'',
     serial = None, vendor = None, model = None\<rparr>"

definition device_b :: usb_device where
  "device_b = \<lparr>device_id = ''USB-B'', name = ''Stick B'', mount_point = ''/media/b'',
     serial = None, vendor = None, model = None\<rparr>"

definition device_b_again :: usb_device where
  "device_b_again = device_b\<lparr>mount_point := ''/media/b1''\<rparr>"

definition device_c :: usb_device where
  "device_c = \<lparr>device_id = ''USB-C'', name = ''Stick C'', mount_point = ''/media/c'',
     serial = None, vendor = None, model = None\<rparr>"

text \<open>
  A stand-in digest for running the log model (the length of the content), the header
  line of a fresh transfer log, two formatted records and the content after they are
  appended.
\<close>

definition toy_sha :: "string \<Rightarrow> 256 word" where
  "toy_sha content = of_nat (length content)"

definition csv_header :: string where
  "csv_header = ''timestamp,operation,device,file_path,file_size,file_type,user'' @ [CHR 0x0A]"

definition fresh_log :: log_files where
  "fresh_log = \<lparr>log_file = Some csv_header, hash_file = None, backups = []\<rparr>"

definition two_records :: "(bool \<times> string) list" where
  "two_records =
     [(False, ''created,D1,a.txt,1000,.txt,alice'' @ [CHR 0x0A]),
      (False, ''deleted,D1,a.txt,0,.txt,alice'' @ [CHR 0x0A])]"

definition logged_content :: string where
  "logged_content =
     csv_header @ ''created,D1,a.txt,1000,.txt,alice'' @ [CHR 0x0A] @
     ''deleted,D1,a.txt,0,.txt,alice'' @ [CHR 0x0A]"

text \<open>
  A run on \<open>a.txt\<close>: a pass on the empty table, the create at second 1, two
  modifications within the completion time of the event before, passes in between,
  and passes after the last event.
\<close>

definition env_at :: "rat \<Rightarrow> os_env" where
  "env_at t = example_env\<lparr>clock := t\<rparr>"

definition a_txt_event :: fs_event where
  "a_txt_event = \<lparr>is_directory = False, src_path = ''/media/usb/a.txt'', dest_path = None\<rparr>"

definition burst_trace :: "step list" where
  "burst_trace =
     [Sweep (env_at (1 / 5)),
      Created a_txt_event (env_at 1),
      Modified a_txt_event (env_at (13 / 10)),
      Sweep (env_at (3 / 2)),
      Modified a_txt_event (env_at (19 / 10)),
      Sweep (env_at (5 / 2)),
      Sweep (env_at 3),
      Sweep (env_at (7 / 2))]"

text \<open>
  The same snapshot while \<open>a.txt\<close> is being overwritten and holds 500 bytes, and
  a run in which the first modification arrives at that moment: a create, the
  modification of the truncated file, a pass, a second modification, a pass.
\<close>

definition truncated_env_at :: "rat \<Rightarrow> os_env" where
  "truncated_env_at t = (env_at t)\<lparr>getsize := (\<lambda>p. Some 500)\<rparr>"

definition overwrite_trace :: "step list" where
  "overwrite_trace =
     [Created a_txt_event (env_at 0),
      Modified a_txt_event (truncated_env_at (9 / 10)),
      Sweep (env_at (3 / 2)),
      Modified a_txt_event (env_at (9 / 5)),
      Sweep (env_at 3)]"

section \<open>Policy evaluator: properties\<close>

lemma py_int_18: "py_int (before_colon ''18:00'') = Inr 18"
  by (simp add: py_int_def before_colon_def int_strip_def is_int_space_def is_digit_def digit_val_def)

lemma py_int_07: "py_int (before_colon ''07:00'') = Inr 7"
  by (simp add: py_int_def before_colon_def int_strip_def is_int_space_def is_digit_def digit_val_def)

lemma check_time_window:
  assumes "enabled (time_based_alerts (alerts cfg))"
      and "\<not> (now_weekday env \<ge> 5 \<and> weekend_alerts (time_based_alerts (alerts cfg)))"
      and "restricted_hour (time_based_alerts (alerts cfg)) ''start'' = Inr s"
      and "restricted_hour (time_based_alerts (alerts cfg)) ''end'' = Inr e"
  shows "check_time_based_alerts cfg env =
           Inr (if s > e then now_hour env \<ge> s \<or> now_hour env < e
                else now_hour env \<ge> s \<and> now_hour env < e)"
  using assms by (auto simp add: check_time_based_alerts_def Let_def)

text \<open>
  Claim C4. With time-based alerts enabled and the weekend rule not firing, the
  window 18:00 to 07:00 makes \<^verbatim>\<open>_check_time_based_alerts\<close> answer true at hour 20,
  true at hour 3 and false at hour 12. In general, with start hour \<open>s\<close> and end hour
  \<open>e\<close> read from the configuration, the answer is \<open>hour \<ge> s \<or> hour < e\<close> when
  \<open>s > e\<close> (a window wrapping past midnight) and \<open>s \<le> hour < e\<close> otherwise.
\<close>

theorem restricted_time_overnight_window:
  assumes "enabled (time_based_alerts (alerts cfg))"
      and "\<not> (now_weekday env \<ge> 5 \<and> weekend_alerts (time_based_alerts (alerts cfg)))"
  shows "(restricted_hours (time_based_alerts (alerts cfg)) ''start'' = Some ''18:00'' \<and>
          restricted_hours (time_based_alerts (alerts cfg)) ''end'' = Some ''07:00'' \<longrightarrow>
            check_time_based_alerts cfg (env\<lparr>now_hour := 20\<rparr>) = Inr True \<and>
            check_time_based_alerts cfg (env\<lparr>now_hour := 3\<rparr>) = Inr True \<and>
            check_time_based_alerts cfg (env\<lparr>now_hour := 12\<rparr>) = Inr False) \<and>
         (\<forall>s e. restricted_hour (time_based_alerts (alerts cfg)) ''start'' = Inr s \<and>
                restricted_hour (time_based_alerts (alerts cfg)) ''end'' = Inr e \<longrightarrow>
            check_time_based_alerts cfg env =
              Inr (if s > e then now_hour env \<ge> s \<or> now_hour env < e
                   else s \<le> now_hour env \<and> now_hour env < e))"
proof (intro conjI impI allI)
  assume h: "restricted_hours (time_based_alerts (alerts cfg)) ''start'' = Some ''18:00'' \<and>
          restricted_hours (time_based_alerts (alerts cfg)) ''end'' = Some ''07:00''"
  have s: "restricted_hour (time_based_alerts (alerts cfg)) ''start'' = Inr 18"
    using h by (simp add: restricted_hour_def py_int_18)
  have e: "restricted_hour (time_based_alerts (alerts cfg)) ''end'' = Inr 7"
    using h by (simp add: restricted_hour_def py_int_07)
  have w: "\<And>h. \<not> (now_weekday (env\<lparr>now_hour := h\<rparr>) \<ge> 5 \<and>
                  weekend_alerts (time_based_alerts (alerts cfg)))"
    using assms(2) by simp
  show "check_time_based_alerts cfg (env\<lparr>now_hour := 20\<rparr>) = Inr True"
    using check_time_window [OF assms(1) w s e, of 20] by simp
  show "check_time_based_alerts cfg (env\<lparr>now_hour := 3\<rparr>) = Inr True"
    using check_time_window [OF assms(1) w s e, of 3] by simp
  show "check_time_based_alerts cfg (env\<lparr>now_hour := 12\<rparr>) = Inr False"
    using check_time_window [OF assms(1) w s e, of 12] by simp
next
  fix s e
  assume "restricted_hour (time_based_alerts (alerts cfg)) ''start'' = Inr s \<and>
          restricted_hour (time_based_alerts (alerts cfg)) ''end'' = Inr e"
  then show "check_time_based_alerts cfg env =
              Inr (if s > e then now_hour env \<ge> s \<or> now_hour env < e
                   else s \<le> now_hour env \<and> now_hour env < e)"
    using check_time_window [OF assms, of s e] by simp
qed

theorem restricted_time_overnight_window_witness:
  "enabled (time_based_alerts (alerts example_config)) \<and>
   \<not> (now_weekday example_env \<ge> 5 \<and> weekend_alerts (time_based_alerts (alerts example_config))) \<and>
   restricted_hours (time_based_alerts (alerts example_config)) ''start'' = Some ''18:00'' \<and>
   restricted_hours (time_based_alerts (alerts example_config)) ''end'' = Some ''07:00'' \<and>
   check_time_based_alerts example_config (example_env\<lparr>now_hour := 20\<rparr>) = Inr True \<and>
   check_time_based_alerts example_config (example_env\<lparr>now_hour := 3\<rparr>) = Inr True \<and>
   check_time_based_alerts example_config (example_env\<lparr>now_hour := 12\<rparr>) = Inr False \<and>
   restricted_hour (time_based_alerts (alerts office_hours_config)) ''start'' = Inr 9 \<and>
   restricted_hour (time_based_alerts (alerts office_hours_config)) ''end'' = Inr 17 \<and>
   check_time_based_alerts office_hours_config (example_env\<lparr>now_hour := 9\<rparr>) = Inr True \<and>
   check_time_based_alerts office_hours_config (example_env\<lparr>now_hour := 17\<rparr>) = Inr False"
proof -
  have a: "enabled (time_based_alerts (alerts example_config))"
    and s: "restricted_hours (time_based_alerts (alerts example_config)) ''start'' = Some ''18:00''"
    and e: "restricted_hours (time_based_alerts (alerts example_config)) ''end'' = Some ''07:00''"
    by (simp_all add: example_config_def)
  have b: "\<not> (now_weekday example_env \<ge> 5 \<and>
               weekend_alerts (time_based_alerts (alerts example_config)))"
    by (simp add: example_env_def)
  have a': "enabled (time_based_alerts (alerts office_hours_config))"
    by (simp add: office_hours_config_def)
  have b': "\<And>h. \<not> (now_weekday (example_env\<lparr>now_hour := h\<rparr>) \<ge> 5 \<and>
               weekend_alerts (time_based_alerts (alerts office_hours_config)))"
    by (simp add: example_env_def)
  have s': "restricted_hour (time_based_alerts (alerts office_hours_config)) ''start'' = Inr 9"
    by (simp add: office_hours_config_def restricted_hour_def py_int_def before_colon_def int_strip_def
        is_int_space_def is_digit_def digit_val_def)
  have e': "restricted_hour (time_based_alerts (alerts office_hours_config)) ''end'' = Inr 17"
    by (simp add: office_hours_config_def restricted_hour_def py_int_def before_colon_def int_strip_def
        is_int_space_def is_digit_def digit_val_def)
  show ?thesis
    using restricted_time_overnight_window [OF a b]
      restricted_time_overnight_window [OF a' b' [of 9]]
      restricted_time_overnight_window [OF a' b' [of 17]]
      a b s e s' e'
    by simp
qed

lemma should_monitor_file_wildcard:
  assumes "include_file_extensions (monitoring cfg) = [''*'']"
  shows "should_monitor_file cfg env path =
           (isfile env path \<and> \<not> size_rejected (monitoring cfg) (getsize env path) \<and>
            file_ext env path \<notin> set (exclude_file_extensions (monitoring cfg)))"
  using assms by (simp add: should_monitor_file_def extension_policy_def)

text \<open>
  Claim C8. With include patterns \<open>["*"]\<close> and exclude patterns \<open>[".tmp"]\<close>, a file
  whose lower-case extension is \<open>.tmp\<close> is never eligible, a file with extension
  \<open>.txt\<close> that is a regular file within the size bounds is eligible, and in general
  a file is eligible exactly when it is a regular file within the size bounds whose
  extension is not the excluded one.
\<close>

theorem wildcard_include_policy:
  assumes "include_file_extensions (monitoring cfg) = [''*'']"
      and "exclude_file_extensions (monitoring cfg) = [''.tmp'']"
  shows "(file_ext env1 p1 = ''.tmp'' \<longrightarrow> \<not> should_monitor_file cfg env1 p1) \<and>
         (file_ext env2 p2 = ''.txt'' \<and> isfile env2 p2 \<and>
            \<not> size_rejected (monitoring cfg) (getsize env2 p2)
            \<longrightarrow> should_monitor_file cfg env2 p2) \<and>
         should_monitor_file cfg env3 p3 =
           (isfile env3 p3 \<and> \<not> size_rejected (monitoring cfg) (getsize env3 p3) \<and>
            file_ext env3 p3 \<noteq> ''.tmp'')"
  using assms by (simp add: should_monitor_file_wildcard)

lemma ext_tmp: "file_ext example_env ''/media/usb/a.tmp'' = ''.tmp''"
  by code_simp
lemma ext_txt: "file_ext example_env ''/media/usb/a.txt'' = ''.txt''"
  by code_simp

theorem wildcard_include_policy_witness:
  "include_file_extensions (monitoring example_config) = [''*''] \<and>
   exclude_file_extensions (monitoring example_config) = [''.tmp''] \<and>
   file_ext example_env ''/media/usb/a.tmp'' = ''.tmp'' \<and>
   \<not> should_monitor_file example_config example_env ''/media/usb/a.tmp'' \<and>
   file_ext example_env ''/media/usb/a.txt'' = ''.txt'' \<and>
   isfile example_env ''/media/usb/a.txt'' \<and>
   \<not> size_rejected (monitoring example_config) (getsize example_env ''/media/usb/a.txt'') \<and>
   should_monitor_file example_config example_env ''/media/usb/a.txt''"
proof -
  have inc: "include_file_extensions (monitoring example_config) = [''*'']"
    by (simp add: example_config_def)
  have exc: "exclude_file_extensions (monitoring example_config) = [''.tmp'']"
    by (simp add: example_config_def)
  have f: "isfile example_env ''/media/usb/a.txt''"
    by (simp add: example_env_def)
  have s: "\<not> size_rejected (monitoring example_config) (getsize example_env ''/media/usb/a.txt'')"
    by (simp add: example_env_def example_config_def size_rejected_def)
  show ?thesis
    using wildcard_include_policy [OF inc exc, of example_env "''/media/usb/a.tmp''"
        example_env "''/media/usb/a.txt''"] inc exc f s ext_tmp ext_txt
    by simp
qed

text \<open>
  Claim C9. With \<open>min_file_size_bytes = 1000\<close> and no upper bound, a regular file of
  500 bytes is not eligible, and a regular file of exactly 1000 bytes that passes the
  extension policy is eligible.
\<close>

theorem min_size_bound_inclusive:
  assumes "min_file_size_bytes (monitoring cfg) = 1000"
      and "max_file_size_bytes (monitoring cfg) = None"
      and "isfile env1 p1" and "getsize env1 p1 = Some 500"
      and "isfile env2 p2" and "getsize env2 p2 = Some 1000"
      and "extension_policy (monitoring cfg) env2 p2"
  shows "\<not> should_monitor_file cfg env1 p1 \<and> should_monitor_file cfg env2 p2"
  using assms by (simp add: should_monitor_file_def size_rejected_def)

theorem min_size_bound_inclusive_witness:
  "min_file_size_bytes (monitoring example_config) = 1000 \<and>
   max_file_size_bytes (monitoring example_config) = None \<and>
   isfile example_env ''/media/usb/small.txt'' \<and>
   getsize example_env ''/media/usb/small.txt'' = Some 500 \<and>
   isfile example_env ''/media/usb/a.txt'' \<and>
   getsize example_env ''/media/usb/a.txt'' = Some 1000 \<and>
   extension_policy (monitoring example_config) example_env ''/media/usb/a.txt'' \<and>
   \<not> should_monitor_file example_config example_env ''/media/usb/small.txt'' \<and>
   should_monitor_file example_config example_env ''/media/usb/a.txt''"
proof -
  have a: "min_file_size_bytes (monitoring example_config) = 1000"
    and b: "max_file_size_bytes (monitoring example_config) = None"
    by (simp_all add: example_config_def)
  have c: "isfile example_env ''/media/usb/small.txt''"
    and d: "getsize example_env ''/media/usb/small.txt'' = Some 500"
    and e: "isfile example_env ''/media/usb/a.txt''"
    and f: "getsize example_env ''/media/usb/a.txt'' = Some 1000"
    by (simp_all add: example_env_def)
  have g: "extension_policy (monitoring example_config) example_env ''/media/usb/a.txt''"
    by (simp add: extension_policy_def example_config_def ext_txt)
  show ?thesis
    using min_size_bound_inclusive [OF a b c d e f g] a b c d e f g by simp
qed

text \<open>
  Claim C5. For a file whose extension is in the suspicious set,
  \<^verbatim>\<open>_is_suspicious_file\<close> answers true exactly when the size in MB exceeds the alert
  threshold, and answers true when the size cannot be read; the size test of
  \<^verbatim>\<open>_should_monitor_file\<close> lets such an unreadable file pass, so that its
  eligibility is decided by \<^verbatim>\<open>isfile\<close> and the extension policy alone.
\<close>

theorem suspicious_fails_closed:
  assumes "file_ext env path \<in> set (suspicious_extensions (alerts cfg))"
  shows "(\<forall>n. getsize env path = Some n \<longrightarrow>
            is_suspicious_file cfg env path =
              (size_mb n > of_int (alert_threshold_mb (alerts cfg)))) \<and>
         (getsize env path = None \<longrightarrow>
            is_suspicious_file cfg env path \<and>
            \<not> size_rejected (monitoring cfg) (getsize env path) \<and>
            should_monitor_file cfg env path =
              (isfile env path \<and> extension_policy (monitoring cfg) env path))"
  using assms
  by (auto simp add: is_suspicious_file_def should_monitor_file_def size_rejected_def)

lemma ext_zip1: "file_ext example_env ''/media/usb/gone.zip'' = ''.zip''"
  by code_simp
lemma ext_zip2: "file_ext example_env ''/media/usb/big.zip'' = ''.zip''"
  by code_simp
lemma ext_zip3: "file_ext example_env ''/media/usb/a.zip'' = ''.zip''"
  by code_simp

theorem suspicious_fails_closed_witness:
  "file_ext example_env ''/media/usb/gone.zip'' \<in> set (suspicious_extensions (alerts example_config)) \<and>
   getsize example_env ''/media/usb/gone.zip'' = None \<and>
   is_suspicious_file example_config example_env ''/media/usb/gone.zip'' \<and>
   should_monitor_file example_config example_env ''/media/usb/gone.zip'' \<and>
   file_ext example_env ''/media/usb/big.zip'' \<in> set (suspicious_extensions (alerts example_config)) \<and>
   getsize example_env ''/media/usb/big.zip'' = Some 209715200 \<and>
   is_suspicious_file example_config example_env ''/media/usb/big.zip'' \<and>
   file_ext example_env ''/media/usb/a.zip'' \<in> set (suspicious_extensions (alerts example_config)) \<and>
   getsize example_env ''/media/usb/a.zip'' = Some 1000 \<and>
   \<not> is_suspicious_file example_config example_env ''/media/usb/a.zip''"
proof -
  have m: "\<And>p. file_ext example_env p = ''.zip'' \<Longrightarrow>
             file_ext example_env p \<in> set (suspicious_extensions (alerts example_config))"
    by (simp add: example_config_def)
  have g1: "getsize example_env ''/media/usb/gone.zip'' = None"
    and g2: "getsize example_env ''/media/usb/big.zip'' = Some 209715200"
    and g3: "getsize example_env ''/media/usb/a.zip'' = Some 1000"
    by (simp_all add: example_env_def)
  have i: "isfile example_env ''/media/usb/gone.zip''" by (simp add: example_env_def)
  have x: "extension_policy (monitoring example_config) example_env ''/media/usb/gone.zip''"
    by (simp add: extension_policy_def example_config_def ext_zip1)
  have t: "alert_threshold_mb (alerts example_config) = 100" by (simp add: example_config_def)
  show ?thesis
    using suspicious_fails_closed [OF m [OF ext_zip1]] suspicious_fails_closed [OF m [OF ext_zip2]]
      suspicious_fails_closed [OF m [OF ext_zip3]]
      m [OF ext_zip1] m [OF ext_zip2] m [OF ext_zip3] g1 g2 g3 i x t
    by (simp add: size_mb_def)
qed

section \<open>Event reconciler: properties\<close>

lemma transfer_records_append:
  "transfer_records (xs @ ys) = transfer_records xs @ transfer_records ys"
  by (induction xs rule: transfer_records.induct) simp_all

lemma set_transfer_records:
  "r \<in> set (transfer_records ls) \<longleftrightarrow> TransferLine r \<in> set ls"
  by (induction ls rule: transfer_records.induct) auto

lemma transfer_records_concat:
  "transfer_records (concat xss) = concat (map transfer_records xss)"
  by (induction xss) (simp_all add: transfer_records_append)

lemma log_file_operation_not_final:
  "transfer_records (log_file_operation h env op path False) = []"
  by (simp add: log_file_operation_def Let_def transfer_records_append
      split: option.splits sum.splits)

lemma log_file_operation_final:
  assumes "relpath env path (mount_point (device h)) = Some rp"
      and "(if path_exists env path then getsize env path else Some 0) = Some sz"
      and "check_time_based_alerts (config h) env = Inr b"
  shows "transfer_records (log_file_operation h env op path True) =
           [\<lparr>operation = op, device_name = name (device h), file_path = rp,
             file_size = sz, file_type = file_ext env path, user = username h\<rparr>]"
  using assms
  by (simp add: log_file_operation_def Let_def transfer_records_append
      split: option.splits sum.splits)

lemma log_file_operation_record:
  assumes "TransferLine r \<in> set (log_file_operation h env op path final)"
  shows "operation r = op \<and>
         (if path_exists env path then getsize env path else Some 0) = Some (file_size r)"
  using assms
  by (auto simp add: log_file_operation_def Let_def
      split: option.splits sum.splits if_splits)

lemma find_finalizable_snd:
  "snd (find_finalizable ct items tbl acc) =
     acc @ map (\<lambda>(path, op, start_time). (path, op))
             (filter (\<lambda>(path, op, start_time). ct - start_time > op_completion_time) items)"
  by (induction ct items tbl acc rule: find_finalizable.induct) simp_all

lemma find_finalizable_fst:
  "fst (find_finalizable ct items tbl acc) =
     filter (\<lambda>e. fst e \<notin> fst ` {x \<in> set items. ct - snd (snd x) > op_completion_time}) tbl"
proof (induction ct items tbl acc rule: find_finalizable.induct)
  case (1 current_time tbl to_finalize)
  then show ?case by simp
next
  case (2 current_time path op start_time items tbl to_finalize)
  show ?case
  proof (cases "current_time - start_time > op_completion_time")
    case True
    have "{x \<in> set ((path, op, start_time) # items). current_time - snd (snd x) > op_completion_time}
          = insert (path, op, start_time)
              {x \<in> set items. current_time - snd (snd x) > op_completion_time}"
      using True by auto
    then show ?thesis
      using True 2(1) by (auto simp add: AList.delete_eq intro!: filter_cong)
  next
    case False
    have "{x \<in> set ((path, op, start_time) # items). current_time - snd (snd x) > op_completion_time}
          = {x \<in> set items. current_time - snd (snd x) > op_completion_time}"
      using False by auto
    then show ?thesis
      using False 2(2) by simp
  qed
qed

lemma finalize_operations_eq:
  "finalize_operations h env tbl =
     (filter (\<lambda>e. fst e \<notin> fst ` {x \<in> set tbl. clock env - snd (snd x) > op_completion_time}) tbl,
      concat (map (\<lambda>(path, op, start_time).
                if path_exists env path \<or> op = ''deleted''
                then log_file_operation h env op path True else [])
              (filter (\<lambda>(path, op, start_time). clock env - start_time > op_completion_time) tbl)))"
proof -
  obtain t f where tf: "find_finalizable (clock env) tbl tbl [] = (t, f)"
    by (cases "find_finalizable (clock env) tbl tbl []")
  have t: "t = filter (\<lambda>e. fst e \<notin> fst ` {x \<in> set tbl. clock env - snd (snd x) > op_completion_time}) tbl"
    using find_finalizable_fst [of "clock env" tbl tbl "[]"] tf by simp
  have f: "f = map (\<lambda>(path, op, start_time). (path, op))
             (filter (\<lambda>(path, op, start_time). clock env - start_time > op_completion_time) tbl)"
    using find_finalizable_snd [of "clock env" tbl tbl "[]"] tf by simp
  show ?thesis
    by (simp add: finalize_operations_def tf t f comp_def case_prod_unfold cong: if_cong)
qed

lemma finalize_operations_origin:
  assumes "TransferLine r \<in> set (snd (finalize_operations h env tbl))"
  shows "\<exists>path op start_time. (path, op, start_time) \<in> set tbl \<and>
           clock env - start_time > op_completion_time \<and>
           (path_exists env path \<or> op = ''deleted'') \<and>
           TransferLine r \<in> set (log_file_operation h env op path True)"
  using assms by (auto simp add: finalize_operations_eq split: if_splits)

text \<open>
  Claim C10. A record written for a path that does not exist when it is finalized
  carries \<open>file_size = 0\<close>: this holds for every final call of
  \<^verbatim>\<open>_log_file_operation\<close> on such a path, the record is the one shown when
  \<^verbatim>\<open>relpath\<close> and the time check do not raise, and every record a finalizer pass
  writes comes from such a call for an entry of the table, which is a delete when the
  path is missing.
\<close>

theorem finalized_missing_path_size_zero:
  "(\<forall>r. \<not> path_exists env path \<and>
        TransferLine r \<in> set (log_file_operation h env op path True)
          \<longrightarrow> file_size r = 0) \<and>
   (\<forall>rp b. \<not> path_exists env path \<and>
        relpath env path (mount_point (device h)) = Some rp \<and>
        check_time_based_alerts (config h) env = Inr b \<longrightarrow>
      transfer_records (log_file_operation h env op path True) =
        [\<lparr>operation = op, device_name = name (device h), file_path = rp,
          file_size = 0, file_type = file_ext env path, user = username h\<rparr>]) \<and>
   (\<forall>r. TransferLine r \<in> set (snd (finalize_operations h env tbl)) \<longrightarrow>
      (\<exists>p o' s. (p, o', s) \<in> set tbl \<and> clock env - s > op_completion_time \<and>
         TransferLine r \<in> set (log_file_operation h env o' p True) \<and>
         (\<not> path_exists env p \<longrightarrow>
            o' = ''deleted'' \<and> operation r = ''deleted'' \<and> file_size r = 0)))"
proof (intro conjI allI impI)
  fix r
  assume "\<not> path_exists env path \<and>
          TransferLine r \<in> set (log_file_operation h env op path True)"
  then show "file_size r = 0"
    using log_file_operation_record [of r h env op path True] by simp
next
  fix rp b
  assume "\<not> path_exists env path \<and>
          relpath env path (mount_point (device h)) = Some rp \<and>
          check_time_based_alerts (config h) env = Inr b"
  then show "transfer_records (log_file_operation h env op path True) =
              [\<lparr>operation = op, device_name = name (device h), file_path = rp,
                file_size = 0, file_type = file_ext env path, user = username h\<rparr>]"
    using log_file_operation_final [of env path h rp 0 b op] by simp
next
  fix r
  assume "TransferLine r \<in> set (snd (finalize_operations h env tbl))"
  from finalize_operations_origin [OF this]
  obtain p o' s where m: "(p, o', s) \<in> set tbl"
    and l: "clock env - s > op_completion_time"
    and x: "path_exists env p \<or> o' = ''deleted''"
    and t: "TransferLine r \<in> set (log_file_operation h env o' p True)"
    by blast
  have "\<not> path_exists env p \<longrightarrow>
          o' = ''deleted'' \<and> operation r = ''deleted'' \<and> file_size r = 0"
    using x log_file_operation_record [OF t] by auto
  with m l t
  show "\<exists>p o' s. (p, o', s) \<in> set tbl \<and> clock env - s > op_completion_time \<and>
         TransferLine r \<in> set (log_file_operation h env o' p True) \<and>
         (\<not> path_exists env p \<longrightarrow>
            o' = ''deleted'' \<and> operation r = ''deleted'' \<and> file_size r = 0)"
    by blast
qed

lemma check_time_later: "check_time_based_alerts example_config later_env = Inr True"
  by (simp add: check_time_based_alerts_def example_config_def later_env_def deleted_env_def
      example_env_def restricted_hour_def py_int_18 py_int_07)

lemma ext_tmp_later: "file_ext later_env ''/media/usb/a.tmp'' = ''.tmp''"
  by code_simp

theorem finalized_missing_path_size_zero_witness:
  "\<not> path_exists later_env ''/media/usb/a.tmp'' \<and>
   transfer_records (log_file_operation example_handler later_env ''deleted''
       ''/media/usb/a.tmp'' True) =
     [\<lparr>operation = ''deleted'', device_name = ''D1'', file_path = ''a.tmp'',
       file_size = 0, file_type = ''.tmp'', user = ''alice''\<rparr>] \<and>
   transfer_records (snd (finalize_operations example_handler later_env
       [(''/media/usb/a.tmp'', ''deleted'', 0)])) =
     [\<lparr>operation = ''deleted'', device_name = ''D1'', file_path = ''a.tmp'',
       file_size = 0, file_type = ''.tmp'', user = ''alice''\<rparr>]"
proof -
  have e: "\<not> path_exists later_env ''/media/usb/a.tmp''"
    by (simp add: later_env_def deleted_env_def)
  have r: "relpath later_env ''/media/usb/a.tmp'' (mount_point (device example_handler))
             = Some ''a.tmp''"
    by (simp add: later_env_def deleted_env_def example_env_def example_handler_def
        example_device_def)
  have c: "check_time_based_alerts (config example_handler) later_env = Inr True"
    by (simp add: example_handler_def check_time_later)
  have l: "clock later_env - 0 > op_completion_time"
    by (simp add: later_env_def op_completion_time_def)
  have n: "name (device example_handler) = ''D1''" "username example_handler = ''alice''"
    by (simp_all add: example_handler_def example_device_def)
  note t = finalized_missing_path_size_zero
      [of later_env "''/media/usb/a.tmp''" example_handler "''deleted''"]
  have p: "transfer_records (log_file_operation example_handler later_env ''deleted''
       ''/media/usb/a.tmp'' True) =
     [\<lparr>operation = ''deleted'', device_name = ''D1'', file_path = ''a.tmp'',
       file_size = 0, file_type = ''.tmp'', user = ''alice''\<rparr>]"
    using t [THEN conjunct2, THEN conjunct1, rule_format, of "''a.tmp''" True] e r c n
    by (simp add: ext_tmp_later)
  show ?thesis
    using e p l by (simp add: finalize_operations_eq)
qed

lemma finalize_operations_removes:
  assumes "(path, op, start_time) \<in> set tbl"
      and "clock env - start_time > op_completion_time"
  shows "path \<notin> fst ` set (fst (finalize_operations h env tbl))"
    and "path_exists env path \<or> op = ''deleted'' \<Longrightarrow>
         set (log_file_operation h env op path True)
           \<subseteq> set (snd (finalize_operations h env tbl))"
proof -
  let ?late = "{x \<in> set tbl. clock env - snd (snd x) > op_completion_time}"
  have m: "(path, op, start_time) \<in> ?late"
    using assms by simp
  then have i: "path \<in> fst ` ?late"
    by force
  show "path \<notin> fst ` set (fst (finalize_operations h env tbl))"
  proof
    assume "path \<in> fst ` set (fst (finalize_operations h env tbl))"
    then obtain e where "fst e = path" and "fst e \<notin> fst ` ?late"
      by (auto simp add: finalize_operations_eq)
    with i show False by simp
  qed
  assume "path_exists env path \<or> op = ''deleted''"
  then show "set (log_file_operation h env op path True)
           \<subseteq> set (snd (finalize_operations h env tbl))"
    using assms by (force simp add: finalize_operations_eq)
qed

lemma update_mem: "(k, v) \<in> set (AList.update k v al)"
  by (induction al) auto

text \<open>
  Claim C2. A non-directory delete event is recorded whatever the configuration and
  the file system say (\<^verbatim>\<open>on_deleted\<close> never calls \<^verbatim>\<open>_should_monitor_file\<close>),
  and a finalizer pass later than the completion time removes the entry and runs the
  final logging call for it although the path is gone; when \<^verbatim>\<open>relpath\<close> and the
  time check do not raise, that call writes the record of the delete.
\<close>

theorem delete_bypasses_eligibility:
  assumes "\<not> is_directory event"
  shows "on_deleted h env event tbl =
           (AList.update (src_path event) (''deleted'', clock env) tbl,
            log_file_operation h env ''deleted'' (src_path event) False) \<and>
         fst (on_deleted (h\<lparr>config := cfg\<rparr>) env event tbl) = fst (on_deleted h env event tbl) \<and>
         (\<forall>env2. clock env2 - clock env > op_completion_time \<longrightarrow>
            src_path event \<notin>
              fst ` set (fst (finalize_operations h env2 (fst (on_deleted h env event tbl)))) \<and>
            set (log_file_operation h env2 ''deleted'' (src_path event) True)
              \<subseteq> set (snd (finalize_operations h env2 (fst (on_deleted h env event tbl)))) \<and>
            (\<forall>rp b. \<not> path_exists env2 (src_path event) \<and>
                relpath env2 (src_path event) (mount_point (device h)) = Some rp \<and>
                check_time_based_alerts (config h) env2 = Inr b \<longrightarrow>
              TransferLine \<lparr>operation = ''deleted'', device_name = name (device h),
                  file_path = rp, file_size = 0, file_type = file_ext env2 (src_path event),
                  user = username h\<rparr>
                \<in> set (snd (finalize_operations h env2 (fst (on_deleted h env event tbl))))))"
proof (intro conjI allI impI)
  show eq: "on_deleted h env event tbl =
           (AList.update (src_path event) (''deleted'', clock env) tbl,
            log_file_operation h env ''deleted'' (src_path event) False)"
    using assms by (simp add: on_deleted_def record_operation_def)
  show "fst (on_deleted (h\<lparr>config := cfg\<rparr>) env event tbl) = fst (on_deleted h env event tbl)"
    using assms by (simp add: on_deleted_def)
  fix env2 :: os_env
  assume late: "clock env2 - clock env > op_completion_time"
  have mem: "(src_path event, ''deleted'', clock env) \<in> set (fst (on_deleted h env event tbl))"
    by (simp add: eq update_mem)
  show "src_path event \<notin>
          fst ` set (fst (finalize_operations h env2 (fst (on_deleted h env event tbl))))"
    using finalize_operations_removes(1) [OF mem late] .
  show sub: "set (log_file_operation h env2 ''deleted'' (src_path event) True)
          \<subseteq> set (snd (finalize_operations h env2 (fst (on_deleted h env event tbl))))"
    using finalize_operations_removes(2) [OF mem late] by simp
  fix rp b
  assume a: "\<not> path_exists env2 (src_path event) \<and>
             relpath env2 (src_path event) (mount_point (device h)) = Some rp \<and>
             check_time_based_alerts (config h) env2 = Inr b"
  then have "transfer_records (log_file_operation h env2 ''deleted'' (src_path event) True) =
      [\<lparr>operation = ''deleted'', device_name = name (device h),
        file_path = rp, file_size = 0, file_type = file_ext env2 (src_path event),
        user = username h\<rparr>]"
    using log_file_operation_final [of env2 "src_path event" h rp 0 b "''deleted''"] by simp
  then have "TransferLine \<lparr>operation = ''deleted'', device_name = name (device h),
        file_path = rp, file_size = 0, file_type = file_ext env2 (src_path event),
        user = username h\<rparr> \<in> set (log_file_operation h env2 ''deleted'' (src_path event) True)"
    by (simp add: set_transfer_records [symmetric])
  then show "TransferLine \<lparr>operation = ''deleted'', device_name = name (device h),
        file_path = rp, file_size = 0, file_type = file_ext env2 (src_path event),
        user = username h\<rparr>
      \<in> set (snd (finalize_operations h env2 (fst (on_deleted h env event tbl))))"
    using sub by blast
qed

theorem delete_bypasses_eligibility_witness:
  "\<not> is_directory delete_tmp_event \<and>
   \<not> should_monitor_file (config example_handler) deleted_env (src_path delete_tmp_event) \<and>
   fst (on_deleted example_handler deleted_env delete_tmp_event []) =
     [(''/media/usb/a.tmp'', ''deleted'', 0)] \<and>
   clock later_env - clock deleted_env > op_completion_time \<and>
   \<not> path_exists later_env (src_path delete_tmp_event) \<and>
   TransferLine \<lparr>operation = ''deleted'', device_name = ''D1'', file_path = ''a.tmp'',
       file_size = 0, file_type = ''.tmp'', user = ''alice''\<rparr>
     \<in> set (snd (finalize_operations example_handler later_env
                   (fst (on_deleted example_handler deleted_env delete_tmp_event [])))) \<and>
   fst (finalize_operations example_handler later_env
         (fst (on_deleted example_handler deleted_env delete_tmp_event []))) = []"
proof -
  have d: "\<not> is_directory delete_tmp_event"
    by (simp add: delete_tmp_event_def)
  have s: "src_path delete_tmp_event = ''/media/usb/a.tmp''"
    by (simp add: delete_tmp_event_def)
  have m: "\<not> should_monitor_file (config example_handler) deleted_env (src_path delete_tmp_event)"
    by (simp add: should_monitor_file_def deleted_env_def)
  have c: "clock later_env - clock deleted_env > op_completion_time"
    by (simp add: later_env_def deleted_env_def example_env_def op_completion_time_def)
  have e: "\<not> path_exists later_env (src_path delete_tmp_event)"
    by (simp add: later_env_def deleted_env_def)
  have r: "relpath later_env (src_path delete_tmp_event) (mount_point (device example_handler))
             = Some ''a.tmp''"
    by (simp add: s later_env_def deleted_env_def example_env_def example_handler_def
        example_device_def)
  have t: "check_time_based_alerts (config example_handler) later_env = Inr True"
    by (simp add: example_handler_def check_time_later)
  have n: "name (device example_handler) = ''D1''" "username example_handler = ''alice''"
    by (simp_all add: example_handler_def example_device_def)
  note inst = delete_bypasses_eligibility [OF d, of example_handler deleted_env "[]" example_config]
  have t1: "fst (on_deleted example_handler deleted_env delete_tmp_event []) =
     [(''/media/usb/a.tmp'', ''deleted'', 0)]"
    using inst [THEN conjunct1] by (simp add: s deleted_env_def example_env_def)
  have t3: "TransferLine \<lparr>operation = ''deleted'', device_name = ''D1'', file_path = ''a.tmp'',
       file_size = 0, file_type = ''.tmp'', user = ''alice''\<rparr>
     \<in> set (snd (finalize_operations example_handler later_env
                   (fst (on_deleted example_handler deleted_env delete_tmp_event []))))"
    using inst [THEN conjunct2, THEN conjunct2, rule_format, OF c, THEN conjunct2,
        THEN conjunct2, rule_format, of "''a.tmp''" True] e r t n
    by (simp add: s ext_tmp_later)
  have t4: "fst (finalize_operations example_handler later_env
         (fst (on_deleted example_handler deleted_env delete_tmp_event []))) = []"
    unfolding t1
    by (simp add: finalize_operations_def op_completion_time_def later_env_def)
  show ?thesis
    using d m t1 c e t3 t4 by simp
qed

text \<open>
  Claim C3 fails as stated: for a move from \<open>a.txt\<close> to \<open>a.tmp\<close>, where the
  destination is excluded and the source is an eligible regular file in the snapshot,
  \<^verbatim>\<open>on_moved\<close> falls through to its \<^verbatim>\<open>elif\<close>, evaluates the source and
  records the move under the source path, although a destination is present.
\<close>

theorem moved_source_evaluated_counterexample:
  "\<not> is_directory rename_to_tmp_event \<and>
   dest_path rename_to_tmp_event = Some ''/media/usb/a.tmp'' \<and>
   src_path rename_to_tmp_event = ''/media/usb/a.txt'' \<and>
   fst (on_moved example_handler example_env rename_to_tmp_event []) =
     [(''/media/usb/a.txt'', ''moved'', 0)]"
proof -
  have a: "\<not> should_monitor_file example_config example_env ''/media/usb/a.tmp''"
    by (simp add: should_monitor_file_def extension_policy_def example_config_def ext_tmp)
  have f: "isfile example_env ''/media/usb/a.txt''"
    and g: "getsize example_env ''/media/usb/a.txt'' = Some 1000"
    by (simp_all add: example_env_def)
  have b: "should_monitor_file example_config example_env ''/media/usb/a.txt''"
    by (simp add: should_monitor_file_def extension_policy_def example_config_def ext_txt
        size_rejected_def f g)
  have c: "clock example_env = 0"
    by (simp add: example_env_def)
  show ?thesis
    using a b c
    by (simp add: on_moved_def rename_to_tmp_event_def example_handler_def
        record_operation_def)
qed

text \<open>
  Claim C3, amended. For a non-directory move event: when a destination is present
  and eligible, the move is recorded and logged at the destination under kind
  \<open>moved\<close>, whatever the source is; when there is no destination, or the destination
  is not eligible, the source is evaluated and, when eligible, recorded and logged
  under kind \<open>moved\<close>; otherwise nothing is recorded.
\<close>

theorem on_moved_destination_first:
  assumes "\<not> is_directory event"
  shows "(\<forall>dest. dest_path event = Some dest \<and> should_monitor_file (config h) env dest \<longrightarrow>
            on_moved h env event tbl =
              (record_operation env ''moved'' dest tbl,
               log_file_operation h env ''moved'' dest False)) \<and>
         (dest_path event = None \<or>
          (\<exists>dest. dest_path event = Some dest \<and> \<not> should_monitor_file (config h) env dest) \<longrightarrow>
            on_moved h env event tbl =
              (if should_monitor_file (config h) env (src_path event)
               then (record_operation env ''moved'' (src_path event) tbl,
                     log_file_operation h env ''moved'' (src_path event) False)
               else (tbl, [])))"
  using assms by (auto simp add: on_moved_def)

theorem on_moved_destination_first_witness:
  "\<not> is_directory rename_to_txt_event \<and>
   dest_path rename_to_txt_event = Some ''/media/usb/a.txt'' \<and>
   should_monitor_file (config example_handler) example_env ''/media/usb/a.txt'' \<and>
   fst (on_moved example_handler example_env rename_to_txt_event []) =
     [(''/media/usb/a.txt'', ''moved'', 0)] \<and>
   \<not> is_directory rename_to_tmp_event \<and>
   dest_path rename_to_tmp_event = Some ''/media/usb/a.tmp'' \<and>
   \<not> should_monitor_file (config example_handler) example_env ''/media/usb/a.tmp'' \<and>
   fst (on_moved example_handler example_env rename_to_tmp_event []) =
     [(''/media/usb/a.txt'', ''moved'', 0)]"
proof -
  have d1: "\<not> is_directory rename_to_txt_event"
    and p1: "dest_path rename_to_txt_event = Some ''/media/usb/a.txt''"
    by (simp_all add: rename_to_txt_event_def)
  have d2: "\<not> is_directory rename_to_tmp_event"
    and p2: "dest_path rename_to_tmp_event = Some ''/media/usb/a.tmp''"
    and s2: "src_path rename_to_tmp_event = ''/media/usb/a.txt''"
    by (simp_all add: rename_to_tmp_event_def)
  have f: "isfile example_env ''/media/usb/a.txt''"
    and g: "getsize example_env ''/media/usb/a.txt'' = Some 1000"
    and c: "clock example_env = 0"
    by (simp_all add: example_env_def)
  have a: "\<not> should_monitor_file (config example_handler) example_env ''/media/usb/a.tmp''"
    by (simp add: should_monitor_file_def extension_policy_def example_config_def ext_tmp
        example_handler_def)
  have b: "should_monitor_file (config example_handler) example_env ''/media/usb/a.txt''"
    by (simp add: should_monitor_file_def extension_policy_def example_config_def ext_txt
        size_rejected_def f g example_handler_def)
  have r1: "fst (on_moved example_handler example_env rename_to_txt_event []) =
     [(''/media/usb/a.txt'', ''moved'', 0)]"
    using on_moved_destination_first [OF d1, of example_handler example_env "[]",
        THEN conjunct1, rule_format, of "''/media/usb/a.txt''"] p1 b c
    by (simp add: record_operation_def)
  have r2: "fst (on_moved example_handler example_env rename_to_tmp_event []) =
     [(''/media/usb/a.txt'', ''moved'', 0)]"
    using on_moved_destination_first [OF d2, of example_handler example_env "[]",
        THEN conjunct2] p2 a b c s2
    by (simp add: record_operation_def)
  show ?thesis
    using d1 p1 b r1 d2 p2 a r2 by simp
qed

section \<open>Device registry: properties\<close>

lemma check_removed_fst:
  "fst (check_removed ids items devs acc) =
     filter (\<lambda>e. fst e \<notin> {k \<in> fst ` set items. k \<notin> ids}) devs"
proof (induction ids items devs acc rule: check_removed.induct)
  case (1 ids devs removed)
  then show ?case by simp
next
  case (2 ids did removed_device items devs removed)
  show ?case
  proof (cases "did \<notin> ids")
    case True
    have "{k \<in> fst ` set ((did, removed_device) # items). k \<notin> ids}
            = insert did {k \<in> fst ` set items. k \<notin> ids}"
      using True by auto
    then show ?thesis
      using True 2(1) by (auto simp add: AList.delete_eq intro!: filter_cong)
  next
    case False
    have "{k \<in> fst ` set ((did, removed_device) # items). k \<notin> ids}
            = {k \<in> fst ` set items. k \<notin> ids}"
      using False by auto
    then show ?thesis
      using False 2(2) by simp
  qed
qed

lemma check_removed_snd:
  "snd (check_removed ids items devs acc) =
     acc @ map snd (filter (\<lambda>e. fst e \<notin> ids) items)"
  by (induction ids items devs acc rule: check_removed.induct) simp_all

lemma check_removed_self:
  "check_removed ids devs devs [] =
     (filter (\<lambda>e. fst e \<in> ids) devs, map snd (filter (\<lambda>e. fst e \<notin> ids) devs))"
proof -
  have "filter (\<lambda>e. fst e \<notin> {k \<in> fst ` set devs. k \<notin> ids}) devs
          = filter (\<lambda>e. fst e \<in> ids) devs"
    by (rule filter_cong) auto
  then show ?thesis
    using check_removed_fst [of ids devs devs "[]"] check_removed_snd [of ids devs devs "[]"]
    by (simp add: prod_eq_iff)
qed

lemma check_new_keys:
  "fst ` set (fst (check_new cur devs acc)) = fst ` set devs \<union> device_id ` set cur"
  by (induction cur devs acc rule: check_new.induct) (auto simp add: AList.dom_update)

lemma check_new_known:
  "device_id ` set cur \<subseteq> fst ` set devs \<Longrightarrow> check_new cur devs acc = (devs, acc)"
  by (induction cur devs acc rule: check_new.induct) auto

lemma check_new_map_of:
  "k \<in> fst ` set devs \<Longrightarrow> map_of (fst (check_new cur devs acc)) k = map_of devs k"
proof (induction cur devs acc rule: check_new.induct)
  case (1 devs added)
  then show ?case by simp
next
  case (2 d current_devices devs added)
  show ?case
  proof (cases "device_id d \<notin> fst ` set devs")
    case True
    then have ne: "device_id d \<noteq> k" using 2(3) by auto
    have "k \<in> fst ` set (AList.update (device_id d) d devs)"
      using 2(3) by (simp add: AList.dom_update)
    from 2(1) [OF True this] show ?thesis
      using True ne by (simp add: AList.update_conv')
  next
    case False
    with 2(2) [OF _ 2(3)] show ?thesis by simp
  qed
qed

lemma check_new_added:
  "set (snd (check_new cur devs acc)) \<subseteq>
     set acc \<union> {d \<in> set cur. device_id d \<notin> fst ` set devs}"
proof (induction cur devs acc rule: check_new.induct)
  case (1 devs added)
  then show ?case by simp
next
  case (2 d current_devices devs added)
  show ?case
  proof (cases "device_id d \<notin> fst ` set devs")
    case True
    from 2(1) [OF True] show ?thesis
      using True by (auto simp add: AList.dom_update)
  next
    case False
    with 2(2) show ?thesis by auto
  qed
qed

text \<open>
  Claim C6. A pass of the polling loop followed by a second pass with the same
  detected devices reports nothing removed and nothing added the second time and
  leaves the dict as it is. In one pass, a device id that is a key of the dict and is
  detected again keeps its stored device and is reported neither as added nor (the
  keys of the dict being the ids of the stored devices) as removed.
\<close>

theorem registry_refresh_idempotent:
  assumes "monitor_fallback_step devs (Some current_devices) = (devs', removed, added)"
  shows "monitor_fallback_step devs' (Some current_devices) = (devs', [], []) \<and>
         (\<forall>k. k \<in> fst ` set devs \<and> k \<in> device_id ` set current_devices \<longrightarrow>
            map_of devs' k = map_of devs k \<and>
            k \<notin> device_id ` set added \<and>
            ((\<forall>e \<in> set devs. device_id (snd e) = fst e) \<longrightarrow> k \<notin> device_id ` set removed))"
proof -
  let ?ids = "device_id ` set current_devices"
  let ?d1 = "filter (\<lambda>e. fst e \<in> ?ids) devs"
  have step: "monitor_fallback_step devs (Some current_devices) =
      (fst (check_new current_devices ?d1 []),
       map snd (filter (\<lambda>e. fst e \<notin> ?ids) devs),
       snd (check_new current_devices ?d1 []))"
    by (simp add: monitor_fallback_step_def check_removed_self case_prod_unfold)
  have d': "devs' = fst (check_new current_devices ?d1 [])"
    and rem: "removed = map snd (filter (\<lambda>e. fst e \<notin> ?ids) devs)"
    and add: "added = snd (check_new current_devices ?d1 [])"
    using assms step by simp_all
  have keys: "fst ` set devs' = fst ` set ?d1 \<union> device_id ` set current_devices"
    unfolding d' by (rule check_new_keys)
  have "fst ` set devs' \<subseteq> ?ids"
    unfolding keys by auto
  then have all_in: "\<forall>e \<in> set devs'. fst e \<in> ?ids"
    by blast
  have r2: "check_removed ?ids devs' devs' [] = (devs', [])"
  proof -
    have "filter (\<lambda>e. fst e \<in> ?ids) devs' = devs'"
      using all_in by (simp add: filter_id_conv)
    moreover have "filter (\<lambda>e. fst e \<notin> ?ids) devs' = []"
      using all_in by (simp add: filter_empty_conv)
    ultimately show ?thesis by (simp add: check_removed_self)
  qed
  have n2: "check_new current_devices devs' [] = (devs', [])"
    by (rule check_new_known) (simp add: keys)
  have idem: "monitor_fallback_step devs' (Some current_devices) = (devs', [], [])"
    by (simp add: monitor_fallback_step_def r2 n2)
  have unchanged: "map_of devs' k = map_of devs k \<and> k \<notin> device_id ` set added \<and>
        ((\<forall>e \<in> set devs. device_id (snd e) = fst e) \<longrightarrow> k \<notin> device_id ` set removed)"
    if k: "k \<in> fst ` set devs \<and> k \<in> device_id ` set current_devices" for k
  proof (intro conjI impI)
    have kin: "k \<in> fst ` set ?d1"
      using k by force
    have "map_of ?d1 k = map_of devs k"
      using k by (induction devs) auto
    then show "map_of devs' k = map_of devs k"
      unfolding d' using check_new_map_of [OF kin] by simp
    show "k \<notin> device_id ` set added"
    proof
      assume "k \<in> device_id ` set added"
      then obtain d where d: "d \<in> set added" and dk: "device_id d = k"
        by auto
      have "d \<in> {d \<in> set current_devices. device_id d \<notin> fst ` set ?d1}"
        using d check_new_added [of current_devices ?d1 "[]"] unfolding add by auto
      then have "k \<notin> fst ` set ?d1"
        using dk by simp
      with kin show False by simp
    qed
    assume inv: "\<forall>e \<in> set devs. device_id (snd e) = fst e"
    show "k \<notin> device_id ` set removed"
    proof
      assume "k \<in> device_id ` set removed"
      then obtain e where e: "e \<in> set devs" and n: "fst e \<notin> ?ids"
        and ek: "device_id (snd e) = k"
        unfolding rem by auto
      from inv e ek have "fst e = k" by auto
      with n k show False by simp
    qed
  qed
  show ?thesis
    using idem unchanged by blast
qed

theorem registry_refresh_idempotent_witness:
  "monitor_fallback_step [(''USB-A'', device_a), (''USB-B'', device_b)]
       (Some [device_b_again, device_c]) =
     ([(''USB-B'', device_b), (''USB-C'', device_c)], [device_a], [device_c]) \<and>
   monitor_fallback_step [(''USB-B'', device_b), (''USB-C'', device_c)]
       (Some [device_b_again, device_c]) =
     ([(''USB-B'', device_b), (''USB-C'', device_c)], [], [])"
proof -
  have ids: "device_id device_a = ''USB-A''" "device_id device_b = ''USB-B''"
    "device_id device_b_again = ''USB-B''" "device_id device_c = ''USB-C''"
    by (simp_all add: device_a_def device_b_def device_b_again_def device_c_def)
  have s: "monitor_fallback_step [(''USB-A'', device_a), (''USB-B'', device_b)]
       (Some [device_b_again, device_c]) =
     ([(''USB-B'', device_b), (''USB-C'', device_c)], [device_a], [device_c])"
    by (simp add: monitor_fallback_step_def ids)
  from registry_refresh_idempotent [OF s] s show ?thesis by simp
qed

section \<open>Transfer log: properties\<close>

lemma strip_id:
  assumes "s \<noteq> []" and "\<not> is_space (hd s)" and "\<not> is_space (last s)"
  shows "strip s = s"
proof -
  from assms(1) obtain x xs where s: "s = x # xs" by (cases s) auto
  have a: "dropWhile is_space s = s"
    using assms(2) by (simp add: s)
  have "rev s \<noteq> []" and "hd (rev s) = last s"
    using assms(1) by (simp_all add: hd_rev)
  then obtain y ys where r: "rev s = y # ys" and y: "y = last s"
    by (cases "rev s") auto
  have b: "dropWhile is_space (rev s) = rev s"
    using assms(3) by (simp add: r y)
  show ?thesis
    by (simp add: strip_def a b)
qed

lemma hex_char_not_space: "n < 16 \<Longrightarrow> \<not> is_space (hex_char n)"
proof -
  assume "n < 16"
  then have "hex_char n \<in> set ''0123456789abcdef''"
    unfolding hex_char_def by (intro nth_mem) simp
  moreover have "\<forall>c \<in> set ''0123456789abcdef''. \<not> is_space c"
    by (simp add: is_space_def)
  ultimately show ?thesis by blast
qed

lemma hexdigest_length: "length (hexdigest w) = 64"
  by (simp add: hexdigest_def)

lemma hexdigest_not_space: "c \<in> set (hexdigest w) \<Longrightarrow> \<not> is_space c"
  by (auto simp add: hexdigest_def hex_char_not_space)

lemma hexdigest_nonempty: "hexdigest w \<noteq> []"
  using hexdigest_length [of w] by auto

lemma strip_hexdigest: "strip (hexdigest w) = hexdigest w"
proof (rule strip_id)
  show "hexdigest w \<noteq> []" by (rule hexdigest_nonempty)
  show "\<not> is_space (hd (hexdigest w))"
    by (rule hexdigest_not_space [of _ w]) (simp add: hexdigest_nonempty)
  show "\<not> is_space (last (hexdigest w))"
    by (rule hexdigest_not_space [of _ w]) (simp add: hexdigest_nonempty)
qed

lemma save_hash_eq:
  "log_file fs = Some content \<Longrightarrow>
     save_hash sha fs = fs\<lparr>hash_file := Some (hexdigest (sha content))\<rparr>"
  by (simp add: save_hash_def compute_file_hash_def hexdigest_nonempty)

lemma emit_post:
  "\<exists>content. log_file (emit sha backupCount fs r) = Some content \<and>
     hash_file (emit sha backupCount fs r) = Some (hexdigest (sha content))"
  by (simp add: emit_def Let_def save_hash_eq)

lemma foldl_emit_post:
  assumes "records \<noteq> []"
  shows "\<exists>content. log_file (foldl (emit sha backupCount) fs records) = Some content \<and>
     hash_file (foldl (emit sha backupCount) fs records) = Some (hexdigest (sha content))"
proof -
  from assms obtain rs r where "records = rs @ [r]"
    by (cases records rule: rev_cases) auto
  then show ?thesis
    by (simp add: emit_post)
qed

lemma verify_consistent:
  assumes "hash_file fs = Some (hexdigest (sha content))"
  shows "verify_log_integrity sha (fs\<lparr>log_file := Some content'\<rparr>) =
           (if hexdigest (sha content') = hexdigest (sha content)
            then Inr (True, ''Log file integrity verified'')
            else Inr (False, ''Hash mismatch, log file may have been tampered with''))"
  using assms by (auto simp add: verify_log_integrity_def strip_hexdigest Let_def)

text \<open>
  The digest check, for any digest function. After one or more appends (with or
  without rotation, from any state of the files) \<^verbatim>\<open>verify_log_integrity\<close> reports
  success; if the log is then replaced out-of-band by any content, it reports success
  when the digest of the new content equals the digest persisted at the last append,
  and a mismatch otherwise.
\<close>

lemma digest_verification:
  assumes "records \<noteq> []"
  shows "\<exists>content. log_file (foldl (emit sha backupCount) fs records) = Some content \<and>
           verify_log_integrity sha (foldl (emit sha backupCount) fs records) =
             Inr (True, ''Log file integrity verified'') \<and>
           (\<forall>content'.
              verify_log_integrity sha
                  ((foldl (emit sha backupCount) fs records)\<lparr>log_file := Some content'\<rparr>) =
                (if hexdigest (sha content') = hexdigest (sha content)
                 then Inr (True, ''Log file integrity verified'')
                 else Inr (False, ''Hash mismatch, log file may have been tampered with'')))"
proof -
  let ?fs = "foldl (emit sha backupCount) fs records"
  from foldl_emit_post [OF assms]
  obtain content where l: "log_file ?fs = Some content"
    and h: "hash_file ?fs = Some (hexdigest (sha content))"
    by blast
  have same: "?fs\<lparr>log_file := Some content\<rparr> = ?fs"
    using l by simp
  note v = verify_consistent [of ?fs sha content, OF h]
  have "verify_log_integrity sha ?fs = Inr (True, ''Log file integrity verified'')"
    using v [of content] by (simp add: same)
  with l v show ?thesis
    by blast
qed

text \<open>
  No function from file contents to 256-bit digests makes verification succeed
  exactly when the content is unchanged since the last append: contents are unbounded,
  so two different contents of the log share a digest. The argument counts; it
  exhibits no pair of contents.
\<close>

lemma no_digest_separates_contents:
  "\<not> (\<exists>sha :: string \<Rightarrow> 256 word. \<forall>line content'.
        (verify_log_integrity sha
            ((emit sha 20 fresh_log (False, line))\<lparr>log_file := Some content'\<rparr>) =
           Inr (True, ''Log file integrity verified''))
        \<longleftrightarrow> (Some content' = log_file (emit sha 20 fresh_log (False, line))))"
proof
  assume "\<exists>sha :: string \<Rightarrow> 256 word. \<forall>line content'.
        (verify_log_integrity sha
            ((emit sha 20 fresh_log (False, line))\<lparr>log_file := Some content'\<rparr>) =
           Inr (True, ''Log file integrity verified''))
        \<longleftrightarrow> (Some content' = log_file (emit sha 20 fresh_log (False, line)))"
  then obtain sha :: "string \<Rightarrow> 256 word" where iff: "\<And>line content'.
        (verify_log_integrity sha
            ((emit sha 20 fresh_log (False, line))\<lparr>log_file := Some content'\<rparr>) =
           Inr (True, ''Log file integrity verified''))
        \<longleftrightarrow> (Some content' = log_file (emit sha 20 fresh_log (False, line)))"
    by blast
  have l: "log_file (emit sha 20 fresh_log (False, line)) = Some (csv_header @ line)" for line
    by (simp add: emit_def fresh_log_def Let_def save_hash_eq)
  have h: "hash_file (emit sha 20 fresh_log (False, line)) =
             Some (hexdigest (sha (csv_header @ line)))" for line
    by (simp add: emit_def fresh_log_def Let_def save_hash_eq)
  have "inj (\<lambda>line. sha (csv_header @ line))"
  proof (rule injI)
    fix a b
    assume "sha (csv_header @ a) = sha (csv_header @ b)"
    then have "verify_log_integrity sha
            ((emit sha 20 fresh_log (False, a))\<lparr>log_file := Some (csv_header @ b)\<rparr>) =
           Inr (True, ''Log file integrity verified'')"
      using verify_consistent [of "emit sha 20 fresh_log (False, a)" sha "csv_header @ a",
          OF h, of "csv_header @ b"] by simp
    then have "Some (csv_header @ b) = log_file (emit sha 20 fresh_log (False, a))"
      using iff by blast
    then show "a = b"
      by (simp add: l)
  qed
  then have "finite (UNIV :: string set)"
    by (rule finite_imageD [rotated]) (rule finite_subset [OF subset_UNIV finite])
  then show False
    using infinite_UNIV_listI by blast
qed

lemma toy_digest_differs:
  "hexdigest (toy_sha (butlast logged_content)) \<noteq> hexdigest (toy_sha logged_content)"
  by code_simp

text \<open>
  The check run with the stand-in digest: two appends verify, and the log cut by its
  last byte does not.
\<close>

lemma digest_verification_example:
  "two_records \<noteq> [] \<and>
   log_file (foldl (emit toy_sha 20) fresh_log two_records) = Some logged_content \<and>
   verify_log_integrity toy_sha (foldl (emit toy_sha 20) fresh_log two_records) =
     Inr (True, ''Log file integrity verified'') \<and>
   verify_log_integrity toy_sha
     ((foldl (emit toy_sha 20) fresh_log two_records)
        \<lparr>log_file := Some (butlast logged_content)\<rparr>) =
     Inr (False, ''Hash mismatch, log file may have been tampered with'')"
proof -
  have n: "two_records \<noteq> []"
    by (simp add: two_records_def)
  have l: "log_file (foldl (emit toy_sha 20) fresh_log two_records) = Some logged_content"
    by (simp add: two_records_def logged_content_def fresh_log_def emit_def Let_def
        save_hash_eq)
  from digest_verification [OF n, of toy_sha 20 fresh_log] l toy_digest_differs
  show ?thesis
    using n by auto
qed

section \<open>Debouncing: properties\<close>

lemma finalize_operations_Nil: "finalize_operations h env [] = ([], [])"
  by (simp add: finalize_operations_def)

lemma finalize_operations_single:
  "finalize_operations h env [(path, k, t)] =
     (if clock env - t > op_completion_time
      then ([], if path_exists env path \<or> k = ''deleted''
                then log_file_operation h env k path True else [])
      else ([(path, k, t)], []))"
  by (simp add: finalize_operations_def)

lemma run_sweeps_only:
  "\<forall>s \<in> set trace. is_sweep s \<Longrightarrow> run h [] trace = ([], [])"
proof (induction trace)
  case Nil
  then show ?case by simp
next
  case (Cons s trace)
  then obtain env where "s = Sweep env" by (cases s) auto
  with Cons show ?case by (simp add: finalize_operations_Nil)
qed

lemma on_modified_pending:
  assumes "src_path event = path" and "\<not> is_directory event"
      and "should_monitor_file (config h) env path"
  shows "on_modified h env event [(path, k, t)] =
           ([(path, ''modified'', clock env)],
            log_file_operation h env ''modified'' path False)"
  using assms by (simp add: on_modified_def record_operation_def)

lemma on_created_empty:
  assumes "src_path event = path" and "\<not> is_directory event"
      and "should_monitor_file (config h) env path"
  shows "on_created h env event [] =
           ([(path, ''created'', clock env)],
            log_file_operation h env ''created'' path False)"
  using assms by (simp add: on_created_def record_operation_def)

lemma last_ge_first:
  "sorted (t # ts) \<Longrightarrow> set us \<subseteq> set ts \<Longrightarrow> t \<le> last (t # us)"
  by (cases us rule: rev_cases) auto

lemma run_Cons:
  "fst (run h tbl (s # rest)) = fst (run h (fst (do_step h s tbl)) rest)"
  "snd (run h tbl (s # rest)) =
     snd (do_step h s tbl) @ snd (run h (fst (do_step h s tbl)) rest)"
  by (simp_all add: case_prod_unfold Let_def)

lemma events_Cons:
  "events (s # rest) = (if is_sweep s then events rest else s # events rest)"
  by (simp add: events_def)

lemma set_events: "set (events trace) \<subseteq> set trace"
  by (auto simp add: events_def)

lemma log_file_operation_at_most_one:
  "length (transfer_records (log_file_operation h env op path final)) \<le> 1"
  by (simp add: log_file_operation_def Let_def transfer_records_append
      split: option.splits sum.splits)

lemma pending_run:
  assumes "\<forall>s \<in> set trace. \<not> is_sweep s \<longrightarrow>
             step_kind s = ''modified'' \<and> file_event_on path s \<and>
             should_monitor_file (config h) (step_env s) path"
      and "sorted (t # map step_clock trace)"
      and "successively (\<lambda>a b. b - a \<le> op_completion_time)
             (t # map step_clock (events trace))"
  shows "if \<exists>x \<in> set trace. is_sweep x \<and>
              step_clock x - last (t # map step_clock (events trace)) > op_completion_time
         then fst (run h [(path, k, t)] trace) = [] \<and>
              (\<exists>x \<in> set trace. is_sweep x \<and>
                 step_clock x - last (t # map step_clock (events trace))
                   > op_completion_time \<and>
                 transfer_records (snd (run h [(path, k, t)] trace)) =
                   transfer_records
                     (if path_exists (step_env x) path \<or>
                         last (k # map step_kind (events trace)) = ''deleted''
                      then log_file_operation h (step_env x)
                             (last (k # map step_kind (events trace))) path True
                      else []))
         else fst (run h [(path, k, t)] trace) =
                [(path, last (k # map step_kind (events trace)),
                  last (t # map step_clock (events trace)))] \<and>
              transfer_records (snd (run h [(path, k, t)] trace)) = []"
  using assms
proof (induction trace arbitrary: k t)
  case Nil
  then show ?case by (simp add: events_def)
next
  case (Cons s rest)
  have ok_rest: "\<forall>s \<in> set rest. \<not> is_sweep s \<longrightarrow>
             step_kind s = ''modified'' \<and> file_event_on path s \<and>
             should_monitor_file (config h) (step_env s) path"
    using Cons.prems(1) by simp
  have sorted_s: "sorted (step_clock s # map step_clock rest)"
    using Cons.prems(2) by simp
  show ?case
  proof (cases "is_sweep s")
    case True
    then obtain env where s: "s = Sweep env" by (cases s) auto
    have c: "step_clock s = clock env" by (simp add: s step_clock_def)
    have e: "step_env s = env" by (simp add: s)
    have ev: "events (s # rest) = events rest"
      using True by (simp add: events_Cons)
    have sorted_t: "sorted (t # map step_clock rest)"
      using Cons.prems(2) by auto
    have gaps_rest: "successively (\<lambda>a b. b - a \<le> op_completion_time)
             (t # map step_clock (events rest))"
      using Cons.prems(3) by (simp add: ev)
    define tl where "tl = last (t # map step_clock (events rest))"
    define kl where "kl = last (k # map step_kind (events rest))"
    show ?thesis
    proof (cases "clock env - t > op_completion_time")
      case late: True
      have no_events: "events rest = []"
      proof (rule ccontr)
        assume "events rest \<noteq> []"
        then obtain e es where e: "events rest = e # es" by (cases "events rest") auto
        then have "e \<in> set rest" using set_events [of rest] by auto
        then have "clock env \<le> step_clock e"
          using sorted_s by (auto simp add: c)
        moreover have "step_clock e - t \<le> op_completion_time"
          using gaps_rest by (simp add: e)
        ultimately show False using late by simp
      qed
      then have all_sweeps: "\<forall>s \<in> set rest. is_sweep s"
        by (auto simp add: events_def filter_empty_conv)
      have tl: "tl = t" and kl: "kl = k"
        by (simp_all add: tl_def kl_def no_events)
      have step: "do_step h s [(path, k, t)] =
          ([], if path_exists env path \<or> k = ''deleted''
               then log_file_operation h env k path True else [])"
        using late by (simp add: s finalize_operations_single)
      have f: "fst (run h [(path, k, t)] (s # rest)) = []"
        by (simp only: run_Cons step fst_conv run_sweeps_only [OF all_sweeps])
      have g: "snd (run h [(path, k, t)] (s # rest)) =
          (if path_exists env path \<or> k = ''deleted''
           then log_file_operation h env k path True else [])"
        by (simp only: run_Cons step fst_conv snd_conv run_sweeps_only [OF all_sweeps]
            append_Nil2)
      have here: "is_sweep s \<and> step_clock s - tl > op_completion_time \<and>
          transfer_records (snd (run h [(path, k, t)] (s # rest))) =
            transfer_records
              (if path_exists (step_env s) path \<or> kl = ''deleted''
               then log_file_operation h (step_env s) kl path True else [])"
        using True late unfolding g tl kl c e by simp
      then have "\<exists>x \<in> set (s # rest). is_sweep x \<and> step_clock x - tl > op_completion_time \<and>
          transfer_records (snd (run h [(path, k, t)] (s # rest))) =
            transfer_records
              (if path_exists (step_env x) path \<or> kl = ''deleted''
               then log_file_operation h (step_env x) kl path True else [])"
        by (meson list.set_intros(1))
      moreover from this have "\<exists>x \<in> set (s # rest). is_sweep x \<and>
          step_clock x - tl > op_completion_time"
        by blast
      ultimately show ?thesis
        unfolding ev tl_def [symmetric] kl_def [symmetric] using f by simp
    next
      case early: False
      have step: "do_step h s [(path, k, t)] = ([(path, k, t)], [])"
        using early by (simp add: s finalize_operations_single)
      have last_ge: "t \<le> tl"
        unfolding tl_def using sorted_t set_events [of rest] by (intro last_ge_first) auto
      have not_late: "\<not> step_clock s - tl > op_completion_time"
        using early last_ge by (simp add: c)
      have f: "fst (run h [(path, k, t)] (s # rest)) = fst (run h [(path, k, t)] rest)"
        by (simp only: run_Cons step fst_conv)
      have g: "snd (run h [(path, k, t)] (s # rest)) = snd (run h [(path, k, t)] rest)"
        by (simp only: run_Cons step fst_conv snd_conv append_Nil)
      note ih = Cons.IH [OF ok_rest sorted_t gaps_rest, of k, folded tl_def kl_def]
      show ?thesis
        unfolding ev f g tl_def [symmetric] kl_def [symmetric]
        using ih not_late by (auto split: if_splits)
    qed
  next
    case False
    then have props: "step_kind s = ''modified''" "file_event_on path s"
      "should_monitor_file (config h) (step_env s) path"
      using Cons.prems(1) by simp_all
    from props(1) False obtain event env where s: "s = Modified event env"
      by (cases s) auto
    have c: "step_clock s = clock env" by (simp add: s step_clock_def)
    have evp: "src_path event = path" "\<not> is_directory event"
      using props(2) by (simp_all add: s file_event_on_def)
    have mon: "should_monitor_file (config h) env path"
      using props(3) by (simp add: s)
    have ev: "events (s # rest) = s # events rest"
      using False by (simp add: events_Cons)
    have gaps_rest: "successively (\<lambda>a b. b - a \<le> op_completion_time)
             (step_clock s # map step_clock (events rest))"
      using Cons.prems(3) by (simp add: ev)
    define tl where "tl = last (step_clock s # map step_clock (events rest))"
    define kl where "kl = last (''modified'' # map step_kind (events rest))"
    have step: "do_step h s [(path, k, t)] =
        ([(path, ''modified'', clock env)], log_file_operation h env ''modified'' path False)"
      by (simp add: s on_modified_pending [OF evp mon])
    have lk: "last (k # map step_kind (events (s # rest))) = kl"
      by (simp add: ev props(1) kl_def)
    have lt: "last (t # map step_clock (events (s # rest))) = tl"
      by (simp add: ev tl_def)
    have f: "fst (run h [(path, k, t)] (s # rest)) =
               fst (run h [(path, ''modified'', step_clock s)] rest)"
      by (simp only: run_Cons step fst_conv c)
    have g: "transfer_records (snd (run h [(path, k, t)] (s # rest))) =
               transfer_records (snd (run h [(path, ''modified'', step_clock s)] rest))"
      by (simp only: run_Cons step fst_conv snd_conv c transfer_records_append
          log_file_operation_not_final append_Nil)
    note ih = Cons.IH [OF ok_rest sorted_s gaps_rest, of "''modified''", folded tl_def kl_def]
    show ?thesis
      unfolding lk lt f g
      using ih False by (auto split: if_splits)
  qed
qed

lemma env_at_monitor:
  "should_monitor_file (config example_handler) (env_at t) ''/media/usb/a.txt''"
proof -
  have "file_ext (env_at t) ''/media/usb/a.txt'' = file_ext example_env ''/media/usb/a.txt''"
    by (simp add: file_ext_def env_at_def)
  moreover have "isfile (env_at t) ''/media/usb/a.txt''"
    and "getsize (env_at t) ''/media/usb/a.txt'' = Some 1000"
    by (simp_all add: env_at_def example_env_def)
  ultimately show ?thesis
    by (simp add: should_monitor_file_def extension_policy_def size_rejected_def
        example_handler_def example_config_def ext_txt)
qed

lemma env_at_record:
  "transfer_records (log_file_operation example_handler (env_at t) k ''/media/usb/a.txt'' True) =
     [\<lparr>operation = k, device_name = ''D1'', file_path = ''a.txt'', file_size = 1000,
       file_type = ''.txt'', user = ''alice''\<rparr>]"
proof -
  have r: "relpath (env_at t) ''/media/usb/a.txt'' (mount_point (device example_handler))
             = Some ''a.txt''"
    by (simp add: env_at_def example_env_def example_handler_def example_device_def)
  have z: "(if path_exists (env_at t) ''/media/usb/a.txt''
            then getsize (env_at t) ''/media/usb/a.txt'' else Some 0) = Some 1000"
    by (simp add: env_at_def example_env_def)
  have b: "check_time_based_alerts (config example_handler) (env_at t) = Inr True"
    by (simp add: check_time_based_alerts_def example_handler_def example_config_def
        env_at_def example_env_def restricted_hour_def py_int_18 py_int_07)
  have x: "file_ext (env_at t) ''/media/usb/a.txt'' = ''.txt''"
    using ext_txt by (simp add: file_ext_def env_at_def)
  have n: "name (device example_handler) = ''D1''" "username example_handler = ''alice''"
    by (simp_all add: example_handler_def example_device_def)
  from log_file_operation_final [OF r z b, of k] show ?thesis
    by (simp add: x n)
qed

lemma truncated_not_monitored:
  "\<not> should_monitor_file (config example_handler) (truncated_env_at t) ''/media/usb/a.txt''"
  by (simp add: should_monitor_file_def size_rejected_def truncated_env_at_def
      example_handler_def example_config_def)

text \<open>
  Claim C1 fails as stated. A file is created, then overwritten: the first
  modification arrives while the file holds 500 bytes, below the lower size bound, so
  \<^verbatim>\<open>on_modified\<close> drops it and the entry keeps the time of the create. The pass at
  1.5 s finalizes \<open>created\<close>; the second modification, 0.9 s after the first,
  starts a new entry, which the last pass finalizes. All events are on one path and
  each arrives within the completion time of the one before, yet two records are
  written.
\<close>

theorem overwrite_two_records_counterexample:
  "map step_kind (events overwrite_trace) = ''created'' # replicate 2 ''modified'' \<and>
   list_all (file_event_on ''/media/usb/a.txt'') (events overwrite_trace) \<and>
   sorted (map step_clock overwrite_trace) \<and>
   successively (\<lambda>a b. b - a \<le> op_completion_time)
     (map step_clock (events overwrite_trace)) \<and>
   (\<exists>s \<in> set overwrite_trace. is_sweep s \<and>
      step_clock s - last (map step_clock (events overwrite_trace)) > op_completion_time) \<and>
   transfer_records (snd (run example_handler [] overwrite_trace)) =
     [\<lparr>operation = ''created'', device_name = ''D1'', file_path = ''a.txt'',
       file_size = 1000, file_type = ''.txt'', user = ''alice''\<rparr>,
      \<lparr>operation = ''modified'', device_name = ''D1'', file_path = ''a.txt'',
       file_size = 1000, file_type = ''.txt'', user = ''alice''\<rparr>]"
proof -
  have h1: "map step_kind (events overwrite_trace) = ''created'' # replicate 2 ''modified''"
    by (simp add: overwrite_trace_def events_def numeral_2_eq_2)
  have h2: "list_all (file_event_on ''/media/usb/a.txt'') (events overwrite_trace)"
    by (simp add: overwrite_trace_def events_def file_event_on_def a_txt_event_def)
  have h3: "sorted (map step_clock overwrite_trace)"
    by (simp add: overwrite_trace_def step_clock_def env_at_def truncated_env_at_def)
  have h4: "successively (\<lambda>a b. b - a \<le> op_completion_time)
      (map step_clock (events overwrite_trace))"
    by (simp add: overwrite_trace_def events_def step_clock_def env_at_def
        truncated_env_at_def op_completion_time_def)
  have h5: "\<exists>s \<in> set overwrite_trace. is_sweep s \<and>
      step_clock s - last (map step_clock (events overwrite_trace)) > op_completion_time"
    by (simp add: overwrite_trace_def events_def step_clock_def env_at_def
        truncated_env_at_def op_completion_time_def)
  have p: "src_path a_txt_event = ''/media/usb/a.txt''" "\<not> is_directory a_txt_event"
    by (simp_all add: a_txt_event_def)
  have e: "path_exists (env_at t) ''/media/usb/a.txt''" for t
    by (simp add: env_at_def example_env_def)
  have c: "clock (env_at t) = t" for t
    by (simp add: env_at_def)
  have s1: "do_step example_handler (Created a_txt_event (env_at 0)) [] =
      ([(''/media/usb/a.txt'', ''created'', 0)],
       log_file_operation example_handler (env_at 0) ''created'' ''/media/usb/a.txt'' False)"
    using on_created_empty [OF p env_at_monitor, of 0] by (simp add: c)
  have s2: "do_step example_handler (Modified a_txt_event (truncated_env_at (9 / 10)))
      [(''/media/usb/a.txt'', ''created'', 0)] = ([(''/media/usb/a.txt'', ''created'', 0)], [])"
    using truncated_not_monitored [of "9 / 10"] by (simp add: on_modified_def p)
  have s3: "do_step example_handler (Sweep (env_at (3 / 2)))
      [(''/media/usb/a.txt'', ''created'', 0)] =
      ([], log_file_operation example_handler (env_at (3 / 2)) ''created''
             ''/media/usb/a.txt'' True)"
    by (simp add: finalize_operations_single c e op_completion_time_def)
  have s4: "do_step example_handler (Modified a_txt_event (env_at (9 / 5))) [] =
      ([(''/media/usb/a.txt'', ''modified'', 9 / 5)],
       log_file_operation example_handler (env_at (9 / 5)) ''modified''
         ''/media/usb/a.txt'' False)"
    using env_at_monitor [of "9 / 5"] by (simp add: on_modified_def p record_operation_def c)
  have s5: "do_step example_handler (Sweep (env_at 3))
      [(''/media/usb/a.txt'', ''modified'', 9 / 5)] =
      ([], log_file_operation example_handler (env_at 3) ''modified''
             ''/media/usb/a.txt'' True)"
    by (simp add: finalize_operations_single c e op_completion_time_def)
  have "transfer_records (snd (run example_handler [] overwrite_trace)) =
     [\<lparr>operation = ''created'', device_name = ''D1'', file_path = ''a.txt'',
       file_size = 1000, file_type = ''.txt'', user = ''alice''\<rparr>,
      \<lparr>operation = ''modified'', device_name = ''D1'', file_path = ''a.txt'',
       file_size = 1000, file_type = ''.txt'', user = ''alice''\<rparr>]"
    unfolding overwrite_trace_def
    by (simp only: run_Cons s1 s2 s3 s4 s5 fst_conv snd_conv run.simps(1)
        transfer_records_append log_file_operation_not_final env_at_record
        append_Nil append_Nil2 append_Cons transfer_records.simps)
  with h1 h2 h3 h4 h5 show ?thesis
    by blast
qed

text \<open>
  Claim C1, amended. Take a run of the handler from the empty table whose raw events
  are a create followed by \<open>n\<close> modifications, all non-directory events on one
  path, each passing \<^verbatim>\<open>_should_monitor_file\<close> when it arrives, interleaved in any way
  with finalizer passes; the clock does not go back, each event arrives within the
  completion time of the event before it, and some pass comes later than the
  completion time after the last event. Then the entry is finalized once, by such a
  late pass, with the kind of the last event (\<open>created\<close> when \<open>n = 0\<close>,
  \<open>modified\<close> otherwise), and the table is empty at the end: the run writes what
  the final logging call for that path and kind writes at that pass when the path
  exists there and nothing otherwise, hence at most one transfer record; when the
  path exists there and the logging call does not raise, it writes exactly one
  record, for that path and of that kind.
\<close>

theorem burst_yields_one_record:
  assumes "map step_kind (events trace) = ''created'' # replicate n ''modified''"
      and "\<forall>s \<in> set (events trace).
             file_event_on path s \<and> should_monitor_file (config h) (step_env s) path"
      and "sorted (map step_clock trace)"
      and "successively (\<lambda>a b. b - a \<le> op_completion_time) (map step_clock (events trace))"
      and "\<exists>s \<in> set trace. is_sweep s \<and>
             step_clock s - last (map step_clock (events trace)) > op_completion_time"
  shows "fst (run h [] trace) = [] \<and>
         (\<exists>x \<in> set trace. is_sweep x \<and>
            step_clock x - last (map step_clock (events trace)) > op_completion_time \<and>
            transfer_records (snd (run h [] trace)) =
              (if path_exists (step_env x) path
               then transfer_records
                      (log_file_operation h (step_env x)
                         (last (map step_kind (events trace))) path True)
               else []) \<and>
            (loggable h path (step_env x) \<longrightarrow>
               (\<exists>rp sz. relpath (step_env x) path (mount_point (device h)) = Some rp \<and>
                  getsize (step_env x) path = Some sz \<and>
                  transfer_records (snd (run h [] trace)) =
                    [\<lparr>operation = last (map step_kind (events trace)),
                      device_name = name (device h), file_path = rp, file_size = sz,
                      file_type = file_ext (step_env x) path, user = username h\<rparr>]))) \<and>
         length (transfer_records (snd (run h [] trace))) \<le> 1 \<and>
         (\<forall>r \<in> set (transfer_records (snd (run h [] trace))).
            operation r = last (map step_kind (events trace))) \<and>
         last (map step_kind (events trace)) = (if n = 0 then ''created'' else ''modified'')"
proof -
  define kl where "kl = last (map step_kind (events trace))"
  define tl where "tl = last (map step_clock (events trace))"
  have kind: "kl = (if n = 0 then ''created'' else ''modified'')"
    by (simp add: kl_def assms(1))
  then have not_deleted: "kl \<noteq> ''deleted''"
    by simp
  have main: "fst (run h [] trace) = [] \<and>
      (\<exists>x \<in> set trace. is_sweep x \<and>
         step_clock x - last (map step_clock (events trace)) > op_completion_time \<and>
         transfer_records (snd (run h [] trace)) =
           transfer_records
             (if path_exists (step_env x) path \<or>
                 last (map step_kind (events trace)) = ''deleted''
              then log_file_operation h (step_env x)
                     (last (map step_kind (events trace))) path True
              else []))"
    using assms
  proof (induction trace)
    case Nil
    then show ?case by (simp add: events_def)
  next
    case (Cons s rest)
    have sorted_s: "sorted (step_clock s # map step_clock rest)"
      using Cons.prems(3) by simp
    show ?case
    proof (cases "is_sweep s")
      case True
      then obtain env where s: "s = Sweep env" by (cases s) auto
      have ev: "events (s # rest) = events rest"
        using True by (simp add: events_Cons)
      have ne: "events rest \<noteq> []"
        using Cons.prems(1) by (auto simp add: ev)
      then have "last (map step_clock (events rest)) \<in> step_clock ` set rest"
        using set_events [of rest] last_in_set [of "map step_clock (events rest)"] by auto
      then have "step_clock s \<le> last (map step_clock (events rest))"
        using sorted_s by auto
      then have not_late: "\<not> step_clock s - last (map step_clock (events rest))
                               > op_completion_time"
        by (simp add: op_completion_time_def)
      have quiet: "\<exists>x \<in> set rest. is_sweep x \<and>
             step_clock x - last (map step_clock (events rest)) > op_completion_time"
        using Cons.prems(5) not_late by (auto simp add: ev)
      have step: "do_step h s [] = ([], [])"
        by (simp add: s finalize_operations_Nil)
      have f: "fst (run h [] (s # rest)) = fst (run h [] rest)"
        by (simp only: run_Cons step fst_conv)
      have g: "snd (run h [] (s # rest)) = snd (run h [] rest)"
        by (simp only: run_Cons step fst_conv snd_conv append_Nil)
      have ih: "fst (run h [] rest) = [] \<and>
        (\<exists>x \<in> set rest. is_sweep x \<and>
           step_clock x - last (map step_clock (events rest)) > op_completion_time \<and>
           transfer_records (snd (run h [] rest)) =
             transfer_records
               (if path_exists (step_env x) path \<or>
                   last (map step_kind (events rest)) = ''deleted''
                then log_file_operation h (step_env x)
                       (last (map step_kind (events rest))) path True
                else []))"
      proof (rule Cons.IH)
        show "map step_kind (events rest) = ''created'' # replicate n ''modified''"
          using Cons.prems(1) by (simp add: ev)
        show "\<forall>s \<in> set (events rest).
             file_event_on path s \<and> should_monitor_file (config h) (step_env s) path"
          using Cons.prems(2) by (simp add: ev)
        show "sorted (map step_clock rest)"
          using Cons.prems(3) by simp
        show "successively (\<lambda>a b. b - a \<le> op_completion_time)
                (map step_clock (events rest))"
          using Cons.prems(4) by (simp add: ev)
        show "\<exists>s \<in> set rest. is_sweep s \<and>
             step_clock s - last (map step_clock (events rest)) > op_completion_time"
          by (rule quiet)
      qed
      show ?thesis
        unfolding ev f g using ih by auto
    next
      case False
      have ev: "events (s # rest) = s # events rest"
        using False by (simp add: events_Cons)
      have k: "step_kind s = ''created''"
        and ks: "map step_kind (events rest) = replicate n ''modified''"
        using Cons.prems(1) by (simp_all add: ev)
      from k obtain event env where s: "s = Created event env"
        by (cases s) auto
      have c: "step_clock s = clock env" by (simp add: s step_clock_def)
      have "file_event_on path s" and "should_monitor_file (config h) (step_env s) path"
        using Cons.prems(2) by (simp_all add: ev)
      then have evp: "src_path event = path" "\<not> is_directory event"
        and mon: "should_monitor_file (config h) env path"
        by (simp_all add: s file_event_on_def)
      have step: "do_step h s [] =
          ([(path, ''created'', clock env)], log_file_operation h env ''created'' path False)"
        by (simp add: s on_created_empty [OF evp mon])
      have ok: "\<forall>x \<in> set rest. \<not> is_sweep x \<longrightarrow>
             step_kind x = ''modified'' \<and> file_event_on path x \<and>
             should_monitor_file (config h) (step_env x) path"
      proof (intro ballI impI)
        fix x assume x: "x \<in> set rest" and nx: "\<not> is_sweep x"
        then have xe: "x \<in> set (events rest)"
          by (simp add: events_def)
        then have "step_kind x \<in> set (map step_kind (events rest))"
          by simp
        then have "step_kind x = ''modified''"
          unfolding ks by simp
        moreover have "file_event_on path x \<and>
            should_monitor_file (config h) (step_env x) path"
          using Cons.prems(2) xe by (simp add: ev)
        ultimately show "step_kind x = ''modified'' \<and> file_event_on path x \<and>
             should_monitor_file (config h) (step_env x) path"
          by simp
      qed
      have gaps: "successively (\<lambda>a b. b - a \<le> op_completion_time)
             (step_clock s # map step_clock (events rest))"
        using Cons.prems(4) by (simp add: ev)
      define tl' where "tl' = last (step_clock s # map step_clock (events rest))"
      define kl' where "kl' = last (''created'' # map step_kind (events rest))"
      have quiet: "\<exists>x \<in> set rest. is_sweep x \<and> step_clock x - tl' > op_completion_time"
        using Cons.prems(5) False by (auto simp add: ev tl'_def)
      note p = pending_run [OF ok sorted_s gaps, of "''created''", folded tl'_def kl'_def]
      have f: "fst (run h [] (s # rest)) = fst (run h [(path, ''created'', step_clock s)] rest)"
        by (simp only: run_Cons step fst_conv c)
      have g: "transfer_records (snd (run h [] (s # rest))) =
                 transfer_records (snd (run h [(path, ''created'', step_clock s)] rest))"
        by (simp only: run_Cons step fst_conv snd_conv c transfer_records_append
            log_file_operation_not_final append_Nil)
      have lk: "last (map step_kind (events (s # rest))) = kl'"
        by (simp add: ev k kl'_def)
      have lt: "last (map step_clock (events (s # rest))) = tl'"
        by (simp add: ev tl'_def)
      show ?thesis
        unfolding lk lt f g using p quiet by (auto split: if_splits)
    qed
  qed
  then obtain x where x: "x \<in> set trace" "is_sweep x" "step_clock x - tl > op_completion_time"
    and out: "transfer_records (snd (run h [] trace)) =
           (if path_exists (step_env x) path
            then transfer_records (log_file_operation h (step_env x) kl path True)
            else [])"
    using not_deleted unfolding kl_def tl_def by (auto split: if_splits)
  have len: "length (transfer_records (snd (run h [] trace))) \<le> 1"
    unfolding out using log_file_operation_at_most_one [of h "step_env x" kl path True]
    by simp
  have ops: "\<forall>r \<in> set (transfer_records (snd (run h [] trace))). operation r = kl"
    unfolding out using log_file_operation_record [of _ h "step_env x" kl path True]
    by (auto simp add: set_transfer_records)
  have rec: "\<exists>rp sz. relpath (step_env x) path (mount_point (device h)) = Some rp \<and>
                  getsize (step_env x) path = Some sz \<and>
                  transfer_records (snd (run h [] trace)) =
                    [\<lparr>operation = kl, device_name = name (device h), file_path = rp,
                      file_size = sz, file_type = file_ext (step_env x) path,
                      user = username h\<rparr>]"
    if l: "loggable h path (step_env x)"
  proof -
    from l obtain rp sz b where
      r: "relpath (step_env x) path (mount_point (device h)) = Some rp"
      and z: "getsize (step_env x) path = Some sz"
      and e: "path_exists (step_env x) path"
      and b: "check_time_based_alerts (config h) (step_env x) = Inr b"
      by (auto simp add: loggable_def split: sum.splits)
    have "(if path_exists (step_env x) path then getsize (step_env x) path else Some 0)
            = Some sz"
      using e z by simp
    from log_file_operation_final [OF r this b, of kl] r z e show ?thesis
      unfolding out by simp
  qed
  show ?thesis
    unfolding kl_def [symmetric] tl_def [symmetric]
    using main x out len ops rec kind unfolding kl_def [symmetric] tl_def [symmetric]
    by blast
qed

theorem burst_yields_one_record_witness:
  "map step_kind (events burst_trace) = ''created'' # replicate 2 ''modified'' \<and>
   list_all (\<lambda>s. file_event_on ''/media/usb/a.txt'' s \<and>
      should_monitor_file (config example_handler) (step_env s) ''/media/usb/a.txt'')
     (events burst_trace) \<and>
   sorted (map step_clock burst_trace) \<and>
   successively (\<lambda>a b. b - a \<le> op_completion_time) (map step_clock (events burst_trace)) \<and>
   (\<exists>s \<in> set burst_trace. is_sweep s \<and>
      step_clock s - last (map step_clock (events burst_trace)) > op_completion_time) \<and>
   fst (run example_handler [] burst_trace) = [] \<and>
   transfer_records (snd (run example_handler [] burst_trace)) =
     [\<lparr>operation = ''modified'', device_name = ''D1'', file_path = ''a.txt'',
       file_size = 1000, file_type = ''.txt'', user = ''alice''\<rparr>]"
proof -
  have h1: "map step_kind (events burst_trace) = ''created'' # replicate 2 ''modified''"
    by (simp add: burst_trace_def events_def numeral_2_eq_2)
  have h2: "\<forall>s \<in> set (events burst_trace).
      file_event_on ''/media/usb/a.txt'' s \<and>
      should_monitor_file (config example_handler) (step_env s) ''/media/usb/a.txt''"
    by (simp add: burst_trace_def events_def file_event_on_def a_txt_event_def env_at_monitor)
  have h4: "sorted (map step_clock burst_trace)"
    by (simp add: burst_trace_def step_clock_def env_at_def)
  have h5: "successively (\<lambda>a b. b - a \<le> op_completion_time)
      (map step_clock (events burst_trace))"
    by (simp add: burst_trace_def events_def step_clock_def env_at_def op_completion_time_def)
  have h6: "\<exists>s \<in> set burst_trace. is_sweep s \<and>
      step_clock s - last (map step_clock (events burst_trace)) > op_completion_time"
    by (simp add: burst_trace_def events_def step_clock_def env_at_def op_completion_time_def)
  have k: "last (map step_kind (events burst_trace)) = ''modified''"
    by (simp add: h1 numeral_2_eq_2)
  have sw: "x \<in> set burst_trace \<Longrightarrow> is_sweep x \<Longrightarrow> \<exists>t. step_env x = env_at t" for x
    by (auto simp add: burst_trace_def)
  from burst_yields_one_record [OF h1 h2 h4 h5 h6]
  obtain x where x: "x \<in> set burst_trace" "is_sweep x"
    and f: "fst (run example_handler [] burst_trace) = []"
    and out: "transfer_records (snd (run example_handler [] burst_trace)) =
              (if path_exists (step_env x) ''/media/usb/a.txt''
               then transfer_records
                      (log_file_operation example_handler (step_env x)
                         (last (map step_kind (events burst_trace))) ''/media/usb/a.txt'' True)
               else [])"
    by blast
  from sw [OF x] obtain t where t: "step_env x = env_at t"
    by blast
  have "path_exists (env_at t) ''/media/usb/a.txt''"
    by (simp add: env_at_def example_env_def)
  then have "transfer_records (snd (run example_handler [] burst_trace)) =
     [\<lparr>operation = ''modified'', device_name = ''D1'', file_path = ''a.txt'',
       file_size = 1000, file_type = ''.txt'', user = ''alice''\<rparr>]"
    unfolding out t k by (simp add: env_at_record)
  moreover have "list_all (\<lambda>s. file_event_on ''/media/usb/a.txt'' s \<and>
      should_monitor_file (config example_handler) (step_env s) ''/media/usb/a.txt'')
     (events burst_trace)"
    using h2 by (simp add: list_all_iff)
  ultimately show ?thesis
    using h1 h4 h5 h6 f by blast
qed

end
